theory Spec2Isabelle
  imports Complex_Main
begin

section \<open>Python values and errors\<close>

text \<open>
  The development embeds the core of \<^verbatim>\<open>docs/assets/benchmark_analysis.py\<close>: the tier
  property of \<^verbatim>\<open>SessionData\<close>, the cost model (\<^verbatim>\<open>cost_per_turn\<close>, \<^verbatim>\<open>cold_cost\<close>,
  \<^verbatim>\<open>project_costs\<close>), the ground-truth loader \<^verbatim>\<open>load_from_json\<close>, the log analyzer
  \<^verbatim>\<open>analyze_session\<close> and the standalone loop of \<^verbatim>\<open>main\<close>.

  Numbers. A Python \<^verbatim>\<open>int\<close> is an \<^typ>\<open>int\<close>. A Python \<^verbatim>\<open>float\<close> is modelled by the
  real number it stands for: rounding error, infinities and NaN are outside the model.
  What the model keeps of the double format is its range at the places where CPython
  checks it: converting an \<^verbatim>\<open>int\<close> to \<^verbatim>\<open>float\<close> (in mixed arithmetic) and the true
  division of two ints raise \<^verbatim>\<open>OverflowError\<close> when the value does not fit a double.

  An exception of the source is a value \<open>Inl e\<close> of a sum type; \<open>Inr\<close> carries the
  result of a call that returns.
\<close>

datatype py_error =
  OSError | AttributeError | TypeError | KeyError | OverflowError | ZeroDivisionError

text \<open>
  An int converts to a double when it rounds (to nearest, ties to even) to a finite one,
  that is when its magnitude is below \<open>2^1024 - 2^970\<close>, the midpoint between the largest
  double and \<open>2^1024\<close>.
\<close>

definition float_limit :: int where
  "float_limit = 2 ^ 1024 - 2 ^ 970"

definition to_float :: "int \<Rightarrow> py_error + real" where
  "to_float n = (if \<bar>n\<bar> < float_limit then Inr (real_of_int n) else Inl OverflowError)"

text \<open>\<^verbatim>\<open>a / b\<close> on two ints: the quotient itself has to fit a double.\<close>

definition int_truediv :: "int \<Rightarrow> int \<Rightarrow> py_error + real" where
  "int_truediv a b =
     (if b = 0 then Inl ZeroDivisionError
      else if \<bar>real_of_int a / real_of_int b\<bar> < real_of_int float_limit
      then Inr (real_of_int a / real_of_int b)
      else Inl OverflowError)"

text \<open>
  \<^verbatim>\<open>round(x)\<close> rounds to the nearest int, ties to the even one; \<^verbatim>\<open>round(x, 1)\<close> does
  the same at one decimal.
\<close>

definition py_round :: "real \<Rightarrow> int" where
  "py_round x =
     (let f = \<lfloor>x\<rfloor>; d = x - real_of_int f
      in if d < 1 / 2 then f else if 1 / 2 < d then f + 1 else if even f then f else f + 1)"

definition py_round1 :: "real \<Rightarrow> real" where
  "py_round1 x = real_of_int (py_round (x * 10)) / 10"

section \<open>JSON values as Python sees them\<close>

text \<open>
  The value \<^verbatim>\<open>json.loads\<close> returns: \<^verbatim>\<open>None\<close>, a bool, an int, a str, a list or a dict.
  A dict is the list of its items in insertion order, its keys distinct. Two restrictions
  of the model:
  numbers are integer literals (no JSON float), and a character of a string is a code
  point below 256, so that \<open>length\<close> is Python's \<^verbatim>\<open>len\<close> of a str.
\<close>

datatype json =
  JNull
| JBool bool
| JInt int
| JStr string
| JArr "json list"
| JObj "(string \<times> json) list"

text \<open>\<^verbatim>\<open>d.get(k)\<close> and \<^verbatim>\<open>d.get(k, default)\<close> on a dict; a JSON null is \<^verbatim>\<open>None\<close>.\<close>

definition dict_get :: "(string \<times> json) list \<Rightarrow> string \<Rightarrow> json" where
  "dict_get kv k = (case map_of kv k of None \<Rightarrow> JNull | Some v \<Rightarrow> v)"

definition dict_get_default :: "(string \<times> json) list \<Rightarrow> string \<Rightarrow> json \<Rightarrow> json" where
  "dict_get_default kv k d = (case map_of kv k of None \<Rightarrow> d | Some v \<Rightarrow> v)"

text \<open>Truth value of an object, and \<^verbatim>\<open>a or b\<close>.\<close>

fun truthy :: "json \<Rightarrow> bool" where
  "truthy JNull = False"
| "truthy (JBool b) = b"
| "truthy (JInt n) = (n \<noteq> 0)"
| "truthy (JStr s) = (s \<noteq> [])"
| "truthy (JArr xs) = (xs \<noteq> [])"
| "truthy (JObj kv) = (kv \<noteq> [])"

definition py_or :: "json \<Rightarrow> json \<Rightarrow> json" where
  "py_or a b = (if truthy a then a else b)"

text \<open>\<^verbatim>\<open>len(x)\<close>: defined on str, list and dict, a \<^verbatim>\<open>TypeError\<close> on the rest.\<close>

fun py_len :: "json \<Rightarrow> py_error + nat" where
  "py_len (JStr s) = Inr (length s)"
| "py_len (JArr xs) = Inr (length xs)"
| "py_len (JObj kv) = Inr (length kv)"
| "py_len JNull = Inl TypeError"
| "py_len (JBool b) = Inl TypeError"
| "py_len (JInt n) = Inl TypeError"

text \<open>
  \<^verbatim>\<open>a + b\<close>: ints add (a bool counts as 0 or 1), two strs and two lists concatenate,
  every other pair is a \<^verbatim>\<open>TypeError\<close>. \<^verbatim>\<open>a > 0\<close> is defined on ints and bools only.
\<close>

fun as_int :: "json \<Rightarrow> int option" where
  "as_int (JInt n) = Some n"
| "as_int (JBool b) = Some (if b then 1 else 0)"
| "as_int JNull = None"
| "as_int (JStr s) = None"
| "as_int (JArr xs) = None"
| "as_int (JObj kv) = None"

definition py_add :: "json \<Rightarrow> json \<Rightarrow> py_error + json" where
  "py_add a b =
     (case (as_int a, as_int b) of
        (Some x, Some y) \<Rightarrow> Inr (JInt (x + y))
      | _ \<Rightarrow>
          (case (a, b) of
             (JStr s, JStr t) \<Rightarrow> Inr (JStr (s @ t))
           | (JArr xs, JArr ys) \<Rightarrow> Inr (JArr (xs @ ys))
           | _ \<Rightarrow> Inl TypeError))"

definition py_gt0 :: "json \<Rightarrow> py_error + bool" where
  "py_gt0 a = (case as_int a of Some x \<Rightarrow> Inr (x > 0) | None \<Rightarrow> Inl TypeError)"

subsection \<open>\<^verbatim>\<open>json.dumps\<close> with its defaults\<close>

text \<open>
  The separators are \<^verbatim>\<open>", "\<close> and \<^verbatim>\<open>": "\<close>, and \<^verbatim>\<open>ensure_ascii\<close> is on: in a string
  the quote, the backslash and the five control characters with a short form take two
  characters, every other character outside the printable ASCII range becomes
  \<^verbatim>\<open>\uXXXX\<close>. The output is ASCII, so its length in characters is its length in UTF-8
  bytes.
\<close>

fun digits :: "nat \<Rightarrow> string" where
  "digits n = (if n < 10 then [char_of (48 + n)] else digits (n div 10) @ [char_of (48 + n mod 10)])"

declare digits.simps [simp del]

definition str_of_int :: "int \<Rightarrow> string" where
  "str_of_int n = (if n < 0 then CHR ''-'' # digits (nat (- n)) else digits (nat n))"

definition hex_digit :: "nat \<Rightarrow> char" where
  "hex_digit n = (if n < 10 then char_of (48 + n) else char_of (87 + n))"

definition escape_char :: "char \<Rightarrow> string" where
  "escape_char c =
     (let n = (of_char c :: nat) in
      if n = 0x22 then [CHR 0x5C, CHR 0x22]
      else if n = 0x5C then [CHR 0x5C, CHR 0x5C]
      else if n = 0x0A then [CHR 0x5C, CHR ''n'']
      else if n = 0x0D then [CHR 0x5C, CHR ''r'']
      else if n = 0x09 then [CHR 0x5C, CHR ''t'']
      else if n = 0x08 then [CHR 0x5C, CHR ''b'']
      else if n = 0x0C then [CHR 0x5C, CHR ''f'']
      else if 0x20 \<le> n \<and> n \<le> 0x7E then [c]
      else [CHR 0x5C, CHR ''u'', CHR ''0'', CHR ''0'', hex_digit (n div 16), hex_digit (n mod 16)])"

definition dumps_str :: "string \<Rightarrow> string" where
  "dumps_str s = CHR 0x22 # concat (map escape_char s) @ [CHR 0x22]"

fun join :: "string \<Rightarrow> string list \<Rightarrow> string" where
  "join sep [] = []"
| "join sep [x] = x"
| "join sep (x # y # ys) = x @ sep @ join sep (y # ys)"

fun dumps :: "json \<Rightarrow> string" where
  "dumps JNull = ''null''"
| "dumps (JBool b) = (if b then ''true'' else ''false'')"
| "dumps (JInt n) = str_of_int n"
| "dumps (JStr s) = dumps_str s"
| "dumps (JArr xs) = ''['' @ join '', '' (map dumps xs) @ '']''"
| "dumps (JObj kv) =
     ''{'' @ join '', '' (map (\<lambda>(k, v). dumps_str k @ '': '' @ dumps v) kv) @ ''}''"

subsection \<open>Lines of text\<close>

text \<open>
  \<^verbatim>\<open>len(line.encode("utf-8"))\<close>: a code point below 128 is one byte, one from 128 to 255
  is two. \<^verbatim>\<open>line.rstrip("\n\r")\<close> drops the trailing line feeds and carriage returns.
  \<^verbatim>\<open>not line.strip()\<close> holds when every character is white space; below 256 these are
  the code points 9 to 13, 28 to 32, 133 and 160.
\<close>

definition utf8_len :: "string \<Rightarrow> nat" where
  "utf8_len s = sum_list (map (\<lambda>c. if (of_char c :: nat) < 128 then 1 else 2) s)"

definition rstrip_nl :: "string \<Rightarrow> string" where
  "rstrip_nl s = rev (dropWhile (\<lambda>c. c = CHR 0x0A \<or> c = CHR 0x0D) (rev s))"

definition is_space :: "char \<Rightarrow> bool" where
  "is_space c =
     (let n = (of_char c :: nat)
      in (9 \<le> n \<and> n \<le> 13) \<or> (28 \<le> n \<and> n \<le> 32) \<or> n = 133 \<or> n = 160)"

definition blank :: "string \<Rightarrow> bool" where
  "blank s = list_all is_space s"

section \<open>Data structures\<close>

text \<open>An entry of the \<^verbatim>\<open>PRICING\<close> table: a dict with exactly these four keys.\<close>

record pricing =
  name :: string
  input :: real
  cache_write :: real
  cache_read :: real

definition PRICING_sonnet :: pricing where
  "PRICING_sonnet = \<lparr>name = ''Sonnet 4'', input = 3, cache_write = 3.75, cache_read = 0.30\<rparr>"

definition PRICING_opus :: pricing where
  "PRICING_opus = \<lparr>name = ''Opus 4.6'', input = 5, cache_write = 6.25, cache_read = 0.50\<rparr>"

definition PRICING_opus_4 :: pricing where
  "PRICING_opus_4 = \<lparr>name = ''Opus 4/4.1'', input = 15, cache_write = 18.75, cache_read = 1.50\<rparr>"

definition PRICING_haiku :: pricing where
  "PRICING_haiku = \<lparr>name = ''Haiku 4.5'', input = 1, cache_write = 1.25, cache_read = 0.10\<rparr>"

definition CONTEXT_LIMIT :: int where "CONTEXT_LIMIT = 200000"
definition SYSTEM_OVERHEAD :: int where "SYSTEM_OVERHEAD = 20000"
definition STUB_THRESHOLD :: int where "STUB_THRESHOLD = 500"
definition TIER_TOOL_HEAVY :: int where "TIER_TOOL_HEAVY = 40"
definition TIER_MIXED :: int where "TIER_MIXED = 15"

text \<open>
  An entry of the \<^verbatim>\<open>sessions\<close> array of a ground-truth file, after \<^verbatim>\<open>json.load\<close>: each
  key is present or absent, and a present key holds a value of the type the interface
  declares. \<open>breakdown\<close> maps a category name to its \<^verbatim>\<open>{bytes, count}\<close> object.
\<close>

record gt_session =
  sessionId :: "string option"
  project :: "string option"
  estimatedTokens :: "int option"
  postTrimTokens :: "int option"
  reductionPercent :: "real option"
  messageCount :: "int option"
  cacheMissPenalty :: "real option"
  savingsPerTurn :: "real option"
  toolResultBytePct :: "int option"
  totalBytes :: "int option"
  breakdown :: "(string \<times> (string \<times> int) list) list option"

record SessionData =
  session_id :: string
  project :: string
  estimated_tokens :: int
  post_trim_tokens :: int
  reduction_pct :: real
  message_count :: int
  breakeven_turns :: int
  cache_miss_penalty :: real
  savings_per_turn :: real
  tool_result_byte_pct :: int
  tool_result_bytes :: int
  thinking_bytes :: int
  file_history_bytes :: int
  conversation_bytes :: int
  tool_use_bytes :: int
  other_bytes :: int
  total_bytes :: int
  tool_result_count :: int

definition tier :: "SessionData \<Rightarrow> string" where
  "tier s =
     (if tool_result_byte_pct s > TIER_TOOL_HEAVY then ''tool_heavy''
      else if tool_result_byte_pct s > TIER_MIXED then ''mixed''
      else ''conversational'')"

record CacheCostProjection =
  turns :: "int list"
  no_trim :: "real list"
  with_trim :: "real list"
  breakeven :: int

section \<open>Cost modelling\<close>

text \<open>
  \<^verbatim>\<open>tokens\<close> reaches the two cost functions as an int (a token count) and meets a float
  in its first operation, \<^verbatim>\<open>tokens * hit_rate\<close> or \<^verbatim>\<open>tokens / 1e6\<close>.
\<close>

definition cost_per_turn :: "int \<Rightarrow> real \<Rightarrow> pricing \<Rightarrow> py_error + real" where
  "cost_per_turn tokens hit_rate pr =
     (case to_float tokens of
        Inl e \<Rightarrow> Inl e
      | Inr t \<Rightarrow>
          (let cached = t * hit_rate;
               new = t * (1 - hit_rate)
           in Inr ((cached / 1000000) * cache_read pr + (new / 1000000) * cache_write pr)))"

definition cold_cost :: "int \<Rightarrow> pricing \<Rightarrow> py_error + real" where
  "cold_cost tokens pr =
     (case to_float tokens of
        Inl e \<Rightarrow> Inl e
      | Inr t \<Rightarrow> Inr ((t / 1000000) * cache_write pr))"

text \<open>
  \<^verbatim>\<open>np.where(diff >= 0)[0]\<close>: the indices of the entries that are at least zero, in
  increasing order.
\<close>

definition where_ge0 :: "real list \<Rightarrow> nat list" where
  "where_ge0 diff = filter (\<lambda>i. diff ! i \<ge> 0) [0..<length diff]"

definition project_costs ::
  "int \<Rightarrow> int \<Rightarrow> pricing \<Rightarrow> real \<Rightarrow> int \<Rightarrow> py_error + CacheCostProjection" where
  "project_costs pre_tokens post_tokens pr hit_rate max_turns =
     (let ts = [1..max_turns] in
      case cost_per_turn pre_tokens hit_rate pr of
        Inl e \<Rightarrow> Inl e
      | Inr pre_cost \<Rightarrow>
     (case cost_per_turn post_tokens hit_rate pr of
        Inl e \<Rightarrow> Inl e
      | Inr post_steady \<Rightarrow>
     (case cold_cost post_tokens pr of
        Inl e \<Rightarrow> Inl e
      | Inr post_first \<Rightarrow>
          (let nt = map (\<lambda>t. pre_cost * real_of_int t) ts;
               wt = map (\<lambda>t. post_first + post_steady * real_of_int (t - 1)) ts;
               diff = map2 (\<lambda>a b. a - b) nt wt;
               be_indices = where_ge0 diff;
               be = (if length be_indices > 0 then int (hd be_indices) + 1 else max_turns)
           in Inr \<lparr>turns = ts, no_trim = nt, with_trim = wt, breakeven = be\<rparr>))))"

section \<open>Load from JSON (ground-truth mode)\<close>

text \<open>
  \<^verbatim>\<open>s[key]\<close> raises \<^verbatim>\<open>KeyError\<close> on an absent key, \<^verbatim>\<open>s.get(key, default)\<close> does not.
  \<^verbatim>\<open>bd.get(cat, {}).get(field, 0)\<close> reads one number of the breakdown.
\<close>

definition subscript :: "'a option \<Rightarrow> py_error + 'a" where
  "subscript v = (case v of None \<Rightarrow> Inl KeyError | Some x \<Rightarrow> Inr x)"

definition get_or :: "'a option \<Rightarrow> 'a \<Rightarrow> 'a" where
  "get_or v d = (case v of None \<Rightarrow> d | Some x \<Rightarrow> x)"

definition bd_get :: "(string \<times> (string \<times> int) list) list \<Rightarrow> string \<Rightarrow> string \<Rightarrow> int" where
  "bd_get bd cat fld = get_or (map_of (get_or (map_of bd cat) []) fld) 0"

definition load_session :: "gt_session \<Rightarrow> pricing \<Rightarrow> real \<Rightarrow> py_error + SessionData" where
  "load_session s pr hit_rate =
     (let bd = get_or (breakdown s) [];
          tr_bytes = bd_get bd ''toolResults'' ''bytes'';
          th_bytes = bd_get bd ''thinkingSignatures'' ''bytes'';
          fh_bytes = bd_get bd ''fileHistory'' ''bytes'';
          cv_bytes = bd_get bd ''conversation'' ''bytes'';
          tu_bytes = bd_get bd ''toolUseRequests'' ''bytes'';
          ot_bytes = bd_get bd ''other'' ''bytes'';
          total = get_or (totalBytes s)
                    (tr_bytes + th_bytes + fh_bytes + cv_bytes + tu_bytes + ot_bytes)
      in
      case subscript (estimatedTokens s) of Inl e \<Rightarrow> Inl e | Inr pre_tok \<Rightarrow>
      case subscript (postTrimTokens s) of Inl e \<Rightarrow> Inl e | Inr post_tok \<Rightarrow>
      case project_costs pre_tok post_tok pr hit_rate 60 of Inl e \<Rightarrow> Inl e | Inr proj \<Rightarrow>
      case subscript (sessionId s) of Inl e \<Rightarrow> Inl e | Inr sid \<Rightarrow>
      case subscript (reductionPercent s) of Inl e \<Rightarrow> Inl e | Inr red \<Rightarrow>
        Inr \<lparr>session_id = sid,
             project = get_or (gt_session.project s) [],
             estimated_tokens = pre_tok,
             post_trim_tokens = post_tok,
             reduction_pct = red,
             message_count = get_or (messageCount s) 0,
             breakeven_turns = breakeven proj,
             cache_miss_penalty = get_or (cacheMissPenalty s) 0,
             savings_per_turn = get_or (savingsPerTurn s) 0,
             tool_result_byte_pct = get_or (toolResultBytePct s) 0,
             tool_result_bytes = tr_bytes,
             thinking_bytes = th_bytes,
             file_history_bytes = fh_bytes,
             conversation_bytes = cv_bytes,
             tool_use_bytes = tu_bytes,
             other_bytes = ot_bytes,
             total_bytes = total,
             tool_result_count = bd_get bd ''toolResults'' ''count''\<rparr>)"

text \<open>
  The loop over \<^verbatim>\<open>data["sessions"]\<close>: the records in the order of the entries; an
  exception at one entry leaves the function.
\<close>

fun load_from_json :: "gt_session list \<Rightarrow> pricing \<Rightarrow> real \<Rightarrow> py_error + SessionData list" where
  "load_from_json [] pr hit_rate = Inr []"
| "load_from_json (s # rest) pr hit_rate =
     (case load_session s pr hit_rate of
        Inl e \<Rightarrow> Inl e
      | Inr r \<Rightarrow>
          (case load_from_json rest pr hit_rate of
             Inl e \<Rightarrow> Inl e
           | Inr rs \<Rightarrow> Inr (r # rs)))"

section \<open>Session JSONL analyzer (standalone mode)\<close>

text \<open>
  A line of the log as the loop of \<^verbatim>\<open>analyze_session\<close> meets it: the text the file
  iterator yields, and what \<^verbatim>\<open>json.loads\<close> makes of the stripped text (\<open>None\<close> is a
  \<^verbatim>\<open>JSONDecodeError\<close>). A file answers \<^verbatim>\<open>os.path.getsize\<close> and \<^verbatim>\<open>open\<close>, each with a
  value or with an \<^verbatim>\<open>OSError\<close> (\<open>None\<close>); \<open>stem\<close> and \<open>parent_name\<close> are the two parts
  of the path that the result records.
\<close>

record log_line =
  raw :: string
  json_loads :: "json option"

record session_file =
  stem :: string
  parent_name :: string
  getsize :: "nat option"
  opened :: "log_line list option"

text \<open>
  The local variables that \<^verbatim>\<open>analyze_session\<close> carries from one line to the next, and
  \<open>tr_b\<close>, \<open>sig_b\<close>, \<open>tu_b\<close>, which it sets to zero at each ordinary record and fills
  while it walks the record's content blocks.
\<close>

record analysis =
  total_bytes :: nat
  tool_result_bytes :: nat
  tool_result_count :: nat
  thinking_bytes :: nat
  thinking_count :: nat
  file_history_bytes :: nat
  file_history_count :: nat
  conversation_bytes :: nat
  tool_use_bytes :: nat
  tool_use_count :: nat
  other_bytes :: nat
  content_chars :: nat
  msg_user :: nat
  msg_assistant :: nat
  last_api_input_tokens :: "int option"
  content_chars_at_last_api :: nat
  tr_b :: nat
  sig_b :: nat
  tu_b :: nat

definition initial :: analysis where
  "initial =
     \<lparr>total_bytes = 0, tool_result_bytes = 0, tool_result_count = 0, thinking_bytes = 0,
      thinking_count = 0, file_history_bytes = 0, file_history_count = 0,
      conversation_bytes = 0, tool_use_bytes = 0, tool_use_count = 0, other_bytes = 0,
      content_chars = 0, msg_user = 0, msg_assistant = 0, last_api_input_tokens = None,
      content_chars_at_last_api = 0, tr_b = 0, sig_b = 0, tu_b = 0\<rparr>"

subsection \<open>Compaction boundary\<close>

definition is_compaction :: "(string \<times> json) list \<Rightarrow> bool" where
  "is_compaction parsed =
     (dict_get parsed ''type'' = JStr ''summary''
      \<or> (dict_get parsed ''type'' = JStr ''system''
          \<and> dict_get parsed ''subtype'' = JStr ''compact_boundary''))"

definition compaction_summary :: "(string \<times> json) list \<Rightarrow> json" where
  "compaction_summary parsed =
     py_or (dict_get parsed ''summary'')
       (case dict_get parsed ''content'' of JStr c \<Rightarrow> JStr c | _ \<Rightarrow> JNull)"

definition compaction :: "(string \<times> json) list \<Rightarrow> nat \<Rightarrow> analysis \<Rightarrow> py_error + analysis" where
  "compaction parsed line_bytes s =
     (let s0 = s\<lparr>total_bytes := line_bytes,
                  tool_result_bytes := 0,
                  tool_result_count := 0,
                  thinking_bytes := 0,
                  thinking_count := 0,
                  file_history_bytes := 0,
                  file_history_count := 0,
                  conversation_bytes := 0,
                  tool_use_bytes := 0,
                  tool_use_count := 0,
                  other_bytes := 0,
                  content_chars := 0,
                  msg_user := 0,
                  msg_assistant := 0,
                  content_chars_at_last_api := 0\<rparr>;
          summary = compaction_summary parsed
      in if truthy summary
         then (case py_len summary of
                 Inl e \<Rightarrow> Inl e
               | Inr n \<Rightarrow>
                   Inr (s0\<lparr>content_chars := content_chars s0 + n,
                            conversation_bytes := conversation_bytes s0 + line_bytes\<rparr>))
         else Inr s0)"

subsection \<open>The usage report of an assistant record\<close>

definition find_usage :: "(string \<times> json) list \<Rightarrow> json" where
  "find_usage parsed =
     (let msg = py_or (dict_get parsed ''message'') (JObj []);
          usage = (case msg of JObj m \<Rightarrow> dict_get m ''usage'' | _ \<Rightarrow> JNull)
      in if usage = JNull then dict_get parsed ''usage'' else usage)"

definition api_input_of :: "(string \<times> json) list \<Rightarrow> py_error + json" where
  "api_input_of usage =
     (case py_add (py_or (dict_get usage ''input_tokens'') (JInt 0))
                  (py_or (dict_get usage ''cache_creation_input_tokens'') (JInt 0)) of
        Inl e \<Rightarrow> Inl e
      | Inr ab \<Rightarrow> py_add ab (py_or (dict_get usage ''cache_read_input_tokens'') (JInt 0)))"

definition record_usage :: "(string \<times> json) list \<Rightarrow> analysis \<Rightarrow> py_error + analysis" where
  "record_usage parsed s =
     (case find_usage parsed of
        JObj usage \<Rightarrow>
          if dict_get usage ''input_tokens'' \<noteq> JNull
          then (case api_input_of usage of
                  Inl e \<Rightarrow> Inl e
                | Inr api_input \<Rightarrow>
                    (case py_gt0 api_input of
                       Inl e \<Rightarrow> Inl e
                     | Inr positive \<Rightarrow>
                         if positive \<and> as_int api_input \<noteq> last_api_input_tokens s
                         then Inr (s\<lparr>last_api_input_tokens := as_int api_input,
                                     content_chars_at_last_api := content_chars s\<rparr>)
                         else Inr s))
          else Inr s
      | _ \<Rightarrow> Inr s)"

subsection \<open>Content blocks\<close>

text \<open>The loop over the items of a \<^verbatim>\<open>tool_result\<close> block's list content.\<close>

fun scan_inner :: "json list \<Rightarrow> analysis \<Rightarrow> py_error + analysis" where
  "scan_inner [] s = Inr s"
| "scan_inner (ib # rest) s =
     (case ib of
        JObj kv \<Rightarrow>
          if dict_get kv ''type'' = JStr ''text''
          then (case py_len (dict_get_default kv ''text'' (JStr [])) of
                  Inl e \<Rightarrow> Inl e
                | Inr n \<Rightarrow> scan_inner rest (s\<lparr>content_chars := content_chars s + n\<rparr>))
          else scan_inner rest s
      | _ \<Rightarrow> scan_inner rest s)"

definition scan_tool_result :: "(string \<times> json) list \<Rightarrow> analysis \<Rightarrow> py_error + analysis" where
  "scan_tool_result block s =
     (let s1 = s\<lparr>tr_b := tr_b s + length (dumps (JObj block)),
                  tool_result_count := tool_result_count s + 1\<rparr>
      in case dict_get block ''content'' of
           JStr inner \<Rightarrow> Inr (s1\<lparr>content_chars := content_chars s1 + length inner\<rparr>)
         | JArr inner \<Rightarrow> scan_inner inner s1
         | _ \<Rightarrow> Inr s1)"

definition scan_thinking :: "(string \<times> json) list \<Rightarrow> analysis \<Rightarrow> analysis" where
  "scan_thinking block s =
     (let s1 = (if truthy (dict_get block ''signature'')
                then s\<lparr>sig_b := sig_b s + length (dumps (dict_get block ''signature'')),
                       thinking_count := thinking_count s + 1\<rparr>
                else s)
      in case dict_get block ''thinking'' of
           JStr t \<Rightarrow> s1\<lparr>content_chars := content_chars s1 + length t\<rparr>
         | _ \<Rightarrow> s1)"

definition scan_tool_use :: "(string \<times> json) list \<Rightarrow> analysis \<Rightarrow> analysis" where
  "scan_tool_use block s =
     (let s1 = s\<lparr>tu_b := tu_b s + length (dumps (JObj block)),
                  tool_use_count := tool_use_count s + 1\<rparr>
      in if truthy (dict_get block ''input'')
         then s1\<lparr>content_chars := content_chars s1 + length (dumps (dict_get block ''input''))\<rparr>
         else s1)"

definition scan_block :: "json \<Rightarrow> analysis \<Rightarrow> py_error + analysis" where
  "scan_block block s =
     (case block of
        JObj kv \<Rightarrow>
          (let btype = dict_get kv ''type'' in
           if btype = JStr ''tool_result'' then scan_tool_result kv s
           else if btype = JStr ''thinking'' then Inr (scan_thinking kv s)
           else if btype = JStr ''tool_use'' then Inr (scan_tool_use kv s)
           else if btype = JStr ''text''
           then (case dict_get kv ''text'' of
                   JStr t \<Rightarrow> Inr (s\<lparr>content_chars := content_chars s + length t\<rparr>)
                 | _ \<Rightarrow> Inr s)
           else Inr s)
      | _ \<Rightarrow> Inr s)"

fun scan_blocks :: "json list \<Rightarrow> analysis \<Rightarrow> py_error + analysis" where
  "scan_blocks [] s = Inr s"
| "scan_blocks (block # rest) s =
     (case scan_block block s of
        Inl e \<Rightarrow> Inl e
      | Inr s' \<Rightarrow> scan_blocks rest s')"

definition find_content :: "(string \<times> json) list \<Rightarrow> json" where
  "find_content parsed =
     (let msg_obj = py_or (dict_get parsed ''message'') (JObj [])
      in py_or (case msg_obj of JObj m \<Rightarrow> dict_get m ''content'' | _ \<Rightarrow> JNull)
               (dict_get parsed ''content''))"

definition scan_content :: "json \<Rightarrow> analysis \<Rightarrow> py_error + analysis" where
  "scan_content content s =
     (case content of
        JArr blocks \<Rightarrow> scan_blocks blocks s
      | JStr c \<Rightarrow> Inr (s\<lparr>content_chars := content_chars s + length c\<rparr>)
      | _ \<Rightarrow> Inr s)"

subsection \<open>One record that is not a compaction boundary\<close>

definition is_user :: "json \<Rightarrow> bool" where
  "is_user role = (role = JStr ''user'' \<or> role = JStr ''human'')"

definition settle :: "json \<Rightarrow> nat \<Rightarrow> analysis \<Rightarrow> analysis" where
  "settle role line_bytes s =
     (let s1 = s\<lparr>tool_result_bytes := tool_result_bytes s + tr_b s,
                  thinking_bytes := thinking_bytes s + sig_b s,
                  tool_use_bytes := tool_use_bytes s + tu_b s\<rparr>;
          accounted = tr_b s + sig_b s + tu_b s;
          remainder = nat (max 0 (int line_bytes - int accounted))
      in if is_user role \<or> role = JStr ''assistant''
         then s1\<lparr>conversation_bytes := conversation_bytes s1 + remainder\<rparr>
         else s1\<lparr>other_bytes := other_bytes s1 + remainder\<rparr>)"

definition ordinary :: "(string \<times> json) list \<Rightarrow> nat \<Rightarrow> analysis \<Rightarrow> py_error + analysis" where
  "ordinary parsed line_bytes s =
     (let s1 = s\<lparr>total_bytes := total_bytes s + line_bytes\<rparr> in
      if dict_get parsed ''type'' = JStr ''file-history-snapshot''
      then Inr (s1\<lparr>file_history_bytes := file_history_bytes s1 + line_bytes,
                    file_history_count := file_history_count s1 + 1\<rparr>)
      else if dict_get parsed ''type'' = JStr ''queue-operation''
      then Inr (s1\<lparr>other_bytes := other_bytes s1 + line_bytes\<rparr>)
      else
        (let role = py_or (dict_get parsed ''role'') (dict_get parsed ''type'');
             s2 = (if is_user role then s1\<lparr>msg_user := msg_user s1 + 1\<rparr> else s1)
         in case (if role = JStr ''assistant''
                  then record_usage parsed (s2\<lparr>msg_assistant := msg_assistant s2 + 1\<rparr>)
                  else Inr s2) of
              Inl e \<Rightarrow> Inl e
            | Inr s3 \<Rightarrow>
                (case scan_content (find_content parsed) (s3\<lparr>tr_b := 0, sig_b := 0, tu_b := 0\<rparr>) of
                   Inl e \<Rightarrow> Inl e
                 | Inr s4 \<Rightarrow> Inr (settle role line_bytes s4))))"

subsection \<open>The loop over the lines\<close>

definition process_line :: "log_line \<Rightarrow> analysis \<Rightarrow> py_error + analysis" where
  "process_line l s =
     (let line = rstrip_nl (raw l) in
      if blank line then Inr s
      else
        (let line_bytes = utf8_len line in
         case json_loads l of
           None \<Rightarrow>
             Inr (s\<lparr>total_bytes := total_bytes s + line_bytes,
                     other_bytes := other_bytes s + line_bytes\<rparr>)
         | Some (JObj parsed) \<Rightarrow>
             if is_compaction parsed then compaction parsed line_bytes s
             else ordinary parsed line_bytes s
         | Some _ \<Rightarrow> Inl AttributeError))"

fun process_lines :: "log_line list \<Rightarrow> analysis \<Rightarrow> py_error + analysis" where
  "process_lines [] s = Inr s"
| "process_lines (l # rest) s =
     (case process_line l s of
        Inl e \<Rightarrow> Inl e
      | Inr s' \<Rightarrow> process_lines rest s')"

subsection \<open>Token estimates\<close>

definition estimate_tokens :: "analysis \<Rightarrow> int" where
  "estimate_tokens s =
     (let heuristic = int (content_chars s) div 4
      in case last_api_input_tokens s of
           Some api \<Rightarrow> api + (int (content_chars s) - int (content_chars_at_last_api s)) div 4
         | None \<Rightarrow> heuristic + SYSTEM_OVERHEAD)"

text \<open>
  \<^verbatim>\<open>file_history_bytes + thinking_bytes + tool_result_bytes * 0.7 - tool_result_count * 35
  + tool_use_bytes * 0.3\<close>, from left to right; each int meets a float and is converted.
\<close>

definition removed_bytes :: "analysis \<Rightarrow> py_error + real" where
  "removed_bytes s =
     (case to_float (int (tool_result_bytes s)) of Inl e \<Rightarrow> Inl e | Inr tr \<Rightarrow>
      case to_float (int (file_history_bytes s) + int (thinking_bytes s)) of Inl e \<Rightarrow> Inl e | Inr ft \<Rightarrow>
      case to_float (int (tool_result_count s) * 35) of Inl e \<Rightarrow> Inl e | Inr cn \<Rightarrow>
      case to_float (int (tool_use_bytes s)) of Inl e \<Rightarrow> Inl e | Inr tu \<Rightarrow>
        Inr (ft + tr * 0.7 - cn + tu * 0.3))"

definition estimate_post_trim :: "analysis \<Rightarrow> int \<Rightarrow> py_error + int" where
  "estimate_post_trim s estimated =
     (if total_bytes s > 0
      then (case removed_bytes s of Inl e \<Rightarrow> Inl e | Inr removed \<Rightarrow>
            case to_float (int (total_bytes s)) of Inl e \<Rightarrow> Inl e | Inr tb \<Rightarrow>
              (let ratio = max 0 (min 0.95 (removed / tb));
                   content_tok = max 0 (estimated - SYSTEM_OVERHEAD)
               in case to_float content_tok of
                    Inl e \<Rightarrow> Inl e
                  | Inr ct \<Rightarrow> Inr (py_round (ct * (1 - ratio)) + SYSTEM_OVERHEAD)))
      else Inr estimated)"

definition reduction_of :: "int \<Rightarrow> int \<Rightarrow> py_error + real" where
  "reduction_of estimated post =
     (if estimated > 0
      then (case int_truediv (estimated - post) estimated of
              Inl e \<Rightarrow> Inl e
            | Inr q \<Rightarrow> Inr (max 0 (py_round1 (q * 100))))
      else Inr 0)"

definition tool_result_pct :: "analysis \<Rightarrow> py_error + int" where
  "tool_result_pct s =
     (if total_bytes s > 0
      then (case int_truediv (int (tool_result_bytes s)) (int (total_bytes s)) of
              Inl e \<Rightarrow> Inl e
            | Inr q \<Rightarrow> Inr (py_round (q * 100)))
      else Inr 0)"

text \<open>What follows the loop: the turn filter, the estimates, the record.\<close>

definition summarize :: "string \<Rightarrow> string \<Rightarrow> analysis \<Rightarrow> py_error + SessionData option" where
  "summarize sid proj s =
     (if msg_user s + msg_assistant s < 10 then Inr None
      else
        (let estimated = estimate_tokens s in
         case estimate_post_trim s estimated of Inl e \<Rightarrow> Inl e | Inr post0 \<Rightarrow>
           (let post = min post0 estimated in
            case reduction_of estimated post of Inl e \<Rightarrow> Inl e | Inr red \<Rightarrow>
            case tool_result_pct s of Inl e \<Rightarrow> Inl e | Inr tr_pct \<Rightarrow>
              Inr (Some
                \<lparr>session_id = sid,
                 project = proj,
                 estimated_tokens = estimated,
                 post_trim_tokens = post,
                 reduction_pct = red,
                 message_count = int (msg_user s + msg_assistant s),
                 breakeven_turns = 0,
                 cache_miss_penalty = 0,
                 savings_per_turn = 0,
                 tool_result_byte_pct = tr_pct,
                 SessionData.tool_result_bytes = int (tool_result_bytes s),
                 SessionData.thinking_bytes = int (thinking_bytes s),
                 SessionData.file_history_bytes = int (file_history_bytes s),
                 SessionData.conversation_bytes = int (conversation_bytes s),
                 SessionData.tool_use_bytes = int (tool_use_bytes s),
                 SessionData.other_bytes = int (other_bytes s),
                 SessionData.total_bytes = int (total_bytes s),
                 SessionData.tool_result_count = int (tool_result_count s)\<rparr>))))"

text \<open>
  \<^verbatim>\<open>analyze_session\<close>: \<open>Inr None\<close> is the \<^verbatim>\<open>None\<close> it returns, \<open>Inl e\<close> an exception that
  leaves it. The two \<^verbatim>\<open>try\<close> blocks cover \<^verbatim>\<open>getsize\<close> and the loop with its \<^verbatim>\<open>open\<close>;
  the code after the loop is outside both.
\<close>

definition analyze_session :: "session_file \<Rightarrow> py_error + SessionData option" where
  "analyze_session f =
     (case getsize f of
        None \<Rightarrow> Inr None
      | Some sz \<Rightarrow>
          if sz < 100 then Inr None
          else (case opened f of
                  None \<Rightarrow> Inr None
                | Some ls \<Rightarrow>
                    (case process_lines ls initial of
                       Inl e \<Rightarrow> Inr None
                     | Inr s \<Rightarrow> summarize (stem f) (parent_name f) s)))"

subsection \<open>The standalone loop of \<^verbatim>\<open>main\<close>\<close>

text \<open>
  For each discovered file: analyze it, and when a record comes back with at least
  \<^verbatim>\<open>min_tokens\<close> estimated tokens, fill in its three cost fields under the requested
  pricing and hit rate and keep it. \<^verbatim>\<open>main\<close> has no handler around the calls.
\<close>

definition fill_costs :: "SessionData \<Rightarrow> pricing \<Rightarrow> real \<Rightarrow> py_error + SessionData" where
  "fill_costs sa pr hit_rate =
     (case project_costs (estimated_tokens sa) (post_trim_tokens sa) pr hit_rate 60 of Inl e \<Rightarrow> Inl e | Inr proj \<Rightarrow>
      case cold_cost (post_trim_tokens sa) pr of Inl e \<Rightarrow> Inl e | Inr cold \<Rightarrow>
      case cost_per_turn (estimated_tokens sa) hit_rate pr of Inl e \<Rightarrow> Inl e | Inr pre \<Rightarrow>
      case cost_per_turn (post_trim_tokens sa) hit_rate pr of Inl e \<Rightarrow> Inl e | Inr post \<Rightarrow>
        Inr (sa\<lparr>breakeven_turns := breakeven proj,
                 cache_miss_penalty := cold - pre,
                 savings_per_turn := pre - post\<rparr>))"

fun analyze_all :: "session_file list \<Rightarrow> pricing \<Rightarrow> real \<Rightarrow> int \<Rightarrow> py_error + SessionData list" where
  "analyze_all [] pr hit_rate min_tokens = Inr []"
| "analyze_all (fp # rest) pr hit_rate min_tokens =
     (case analyze_session fp of
        Inl e \<Rightarrow> Inl e
      | Inr None \<Rightarrow> analyze_all rest pr hit_rate min_tokens
      | Inr (Some sa) \<Rightarrow>
          if estimated_tokens sa \<ge> min_tokens
          then (case fill_costs sa pr hit_rate of
                  Inl e \<Rightarrow> Inl e
                | Inr sa' \<Rightarrow>
                    (case analyze_all rest pr hit_rate min_tokens of
                       Inl e \<Rightarrow> Inl e
                     | Inr sessions \<Rightarrow> Inr (sa' # sessions)))
          else analyze_all rest pr hit_rate min_tokens)"

section \<open>Notions used in the statements\<close>

text \<open>
  \<open>shift d s\<close> adds to \<open>s\<close> what a walk over content blocks accumulated in \<open>d\<close>: the
  seven variables that the block loop touches. The walk from any state is the walk from
  \<open>initial\<close>, shifted.
\<close>

definition shift :: "analysis \<Rightarrow> analysis \<Rightarrow> analysis" where
  "shift d s =
     s\<lparr>tr_b := tr_b s + tr_b d,
       sig_b := sig_b s + sig_b d,
       tu_b := tu_b s + tu_b d,
       tool_result_count := tool_result_count s + tool_result_count d,
       thinking_count := thinking_count s + thinking_count d,
       tool_use_count := tool_use_count s + tool_use_count d,
       content_chars := content_chars s + content_chars d\<rparr>"

text \<open>The seven byte counters, and the sum of the six categories.\<close>

definition byte_counters :: "analysis \<Rightarrow> nat \<times> nat \<times> nat \<times> nat \<times> nat \<times> nat \<times> nat" where
  "byte_counters s =
     (total_bytes s, tool_result_bytes s, thinking_bytes s, file_history_bytes s,
      conversation_bytes s, tool_use_bytes s, other_bytes s)"

definition category_sum :: "analysis \<Rightarrow> nat" where
  "category_sum s =
     tool_result_bytes s + thinking_bytes s + file_history_bytes s
     + conversation_bytes s + tool_use_bytes s + other_bytes s"

text \<open>The seven byte fields of a record, in the same order.\<close>

definition record_byte_counters :: "SessionData \<Rightarrow> int \<times> int \<times> int \<times> int \<times> int \<times> int \<times> int" where
  "record_byte_counters r =
     (SessionData.total_bytes r, SessionData.tool_result_bytes r,
      SessionData.thinking_bytes r, SessionData.file_history_bytes r,
      SessionData.conversation_bytes r, SessionData.tool_use_bytes r,
      SessionData.other_bytes r)"

text \<open>
  The byte length of a line as the loop measures it, and the bytes the loop accounts
  to the \<^verbatim>\<open>tool_result\<close>, signature and \<^verbatim>\<open>tool_use\<close> blocks of a line (\<^verbatim>\<open>accounted\<close> in
  the source).
\<close>

definition line_bytes_of :: "log_line \<Rightarrow> nat" where
  "line_bytes_of l = utf8_len (rstrip_nl (raw l))"

definition accounted_of :: "log_line \<Rightarrow> nat" where
  "accounted_of l =
     (case json_loads l of
        Some (JObj parsed) \<Rightarrow>
          (case scan_content (find_content parsed) initial of
             Inr d \<Rightarrow> tr_b d + sig_b d + tu_b d
           | Inl e \<Rightarrow> 0)
      | _ \<Rightarrow> 0)"

text \<open>
  What the loop maintains about the API checkpoint: the character count captured at the
  checkpoint never exceeds the current one, and a recorded token total is positive.
\<close>

definition anchored :: "analysis \<Rightarrow> bool" where
  "anchored s =
     (content_chars_at_last_api s \<le> content_chars s
      \<and> (case last_api_input_tokens s of Some a \<Rightarrow> 0 < a | None \<Rightarrow> True))"

section \<open>Example inputs\<close>

text \<open>
  Lines of a log, each with its text and the value \<^verbatim>\<open>json.loads\<close> returns for it:
  a user turn with plain text, a user turn that carries one \<^verbatim>\<open>tool_result\<close> block whose
  text is eight times the letter U+00E9, an assistant turn that reports \<open>n\<close> input tokens
  (\<open>n\<close> written as the digits \<open>ds\<close>), and a summary record.
\<close>

definition user_line :: log_line where
  "user_line =
     \<lparr>raw = ''{\"type\":\"user\",\"content\":\"hello\"}'' @ [CHR 0x0A],
      json_loads = Some (JObj [(''type'', JStr ''user''), (''content'', JStr ''hello'')])\<rparr>"

definition tool_result_line :: log_line where
  "tool_result_line =
     \<lparr>raw = ''{\"type\":\"user\",\"content\":[{\"type\":\"tool_result\",\"content\":\"''
              @ replicate 8 (CHR 0xE9) @ ''\"}]}'' @ [CHR 0x0A],
      json_loads = Some (JObj [(''type'', JStr ''user''),
        (''content'', JArr [JObj [(''type'', JStr ''tool_result''),
                                  (''content'', JStr (replicate 8 (CHR 0xE9)))]])])\<rparr>"

definition assistant_line :: "string \<Rightarrow> int \<Rightarrow> log_line" where
  "assistant_line ds n =
     \<lparr>raw = ''{\"type\":\"assistant\",\"message\":{\"usage\":{\"input_tokens\":'' @ ds
              @ ''},\"content\":\"ok\"}}'' @ [CHR 0x0A],
      json_loads = Some (JObj [(''type'', JStr ''assistant''),
        (''message'', JObj [(''usage'', JObj [(''input_tokens'', JInt n)]),
                            (''content'', JStr ''ok'')])])\<rparr>"

definition summary_line :: log_line where
  "summary_line =
     \<lparr>raw = ''{\"type\":\"summary\",\"summary\":\"abc\"}'' @ [CHR 0x0A],
      json_loads = Some (JObj [(''type'', JStr ''summary''), (''summary'', JStr ''abc'')])\<rparr>"

text \<open>
  Session files: ten plain user turns; ten user turns with a \<^verbatim>\<open>tool_result\<close> block each;
  three plain user turns followed by seven assistant turns that report 150 input tokens.
\<close>

definition plain_session :: session_file where
  "plain_session =
     \<lparr>stem = ''plain'', parent_name = ''demo'', getsize = Some 340,
      opened = Some (replicate 10 user_line)\<rparr>"

definition tool_result_session :: session_file where
  "tool_result_session =
     \<lparr>stem = ''tools'', parent_name = ''demo'', getsize = Some 800,
      opened = Some (replicate 10 tool_result_line)\<rparr>"

definition small_session :: session_file where
  "small_session =
     \<lparr>stem = ''small'', parent_name = ''demo'', getsize = Some 641,
      opened = Some (replicate 3 user_line @ replicate 7 (assistant_line ''150'' 150))\<rparr>"

text \<open>
  A session with a compaction: a user turn, a \<^verbatim>\<open>tool_result\<close> turn, the summary record
  and ten user turns; and the session that starts at the summary record.
\<close>

definition compacted_session :: session_file where
  "compacted_session =
     \<lparr>stem = ''compacted'', parent_name = ''demo'', getsize = Some 489,
      opened = Some ([user_line, tool_result_line] @ summary_line # replicate 10 user_line)\<rparr>"

definition tail_session :: session_file where
  "tail_session =
     \<lparr>stem = ''tail'', parent_name = ''demo'', getsize = Some 375,
      opened = Some (summary_line # replicate 10 user_line)\<rparr>"

text \<open>
  The session that starts at the summary record, preceded by one assistant turn that
  reports 50000 input tokens.
\<close>

definition stale_session :: session_file where
  "stale_session =
     \<lparr>stem = ''stale'', parent_name = ''demo'', getsize = Some 454,
      opened = Some ([assistant_line ''50000'' 50000, summary_line] @ replicate 10 user_line)\<rparr>"

text \<open>
  Entries of a ground-truth file: one whose post-trim count exceeds its pre-trim count,
  and one for 100000 tokens trimmed to 20000 whose penalty and savings are the values
  for the Sonnet prices at a hit rate of 0.9.
\<close>

definition inflated_entry :: gt_session where
  "inflated_entry =
     \<lparr>sessionId = Some ''inflated'', project = None, estimatedTokens = Some 1000,
      postTrimTokens = Some 2000, reductionPercent = Some 150, messageCount = None,
      cacheMissPenalty = None, savingsPerTurn = None, toolResultBytePct = None,
      totalBytes = None, breakdown = None\<rparr>"

definition sonnet_entry :: gt_session where
  "sonnet_entry =
     \<lparr>sessionId = Some ''trimmed'', project = Some ''demo'', estimatedTokens = Some 100000,
      postTrimTokens = Some 20000, reductionPercent = Some 80, messageCount = Some 40,
      cacheMissPenalty = Some 0.0105, savingsPerTurn = Some 0.0516,
      toolResultBytePct = Some 50, totalBytes = None,
      breakdown = Some [(''toolResults'', [(''bytes'', 500), (''count'', 3)])]\<rparr>"

text \<open>
  A session of nine plain user turns and one assistant turn that reports an input-token
  total of \<open>10^310\<close> (the digit 1 followed by 310 zeros), a number beyond the range of a
  double.
\<close>

definition overflow_session :: session_file where
  "overflow_session =
     \<lparr>stem = ''overflow'', parent_name = ''demo'', getsize = Some 691,
      opened = Some (replicate 9 user_line
        @ [assistant_line (CHR ''1'' # replicate 310 (CHR ''0'')) (10 ^ 310)])\<rparr>"

section \<open>Properties of the cost model\<close>







lemma cold_cost_returns:
  "\<bar>tokens\<bar> < float_limit \<Longrightarrow>
     cold_cost tokens pr = Inr ((real_of_int tokens / 1000000) * cache_write pr)"
  by (simp add: cold_cost_def to_float_def)

lemma cost_per_turn_returns:
  "\<bar>tokens\<bar> < float_limit \<Longrightarrow> \<exists>a. cost_per_turn tokens h pr = Inr a"
  by (simp add: cost_per_turn_def to_float_def)






section \<open>The tier of a session\<close>

text \<open>
  Claim C7. The tier is determined by \<open>tool_result_byte_pct\<close> alone: above 40 it is
  \<open>tool_heavy\<close>, above 15 and at most 40 it is \<open>mixed\<close>, otherwise \<open>conversational\<close>; the
  values 41, 40, 16, 15 and 0 give \<open>tool_heavy\<close>, \<open>mixed\<close>, \<open>mixed\<close>, \<open>conversational\<close>
  and \<open>conversational\<close>.
\<close>

theorem tier_thresholds:
  "tier s = (if tool_result_byte_pct s > 40 then ''tool_heavy''
             else if tool_result_byte_pct s > 15 then ''mixed''
             else ''conversational'') \<and>
   tier (s\<lparr>tool_result_byte_pct := 41\<rparr>) = ''tool_heavy'' \<and>
   tier (s\<lparr>tool_result_byte_pct := 40\<rparr>) = ''mixed'' \<and>
   tier (s\<lparr>tool_result_byte_pct := 16\<rparr>) = ''mixed'' \<and>
   tier (s\<lparr>tool_result_byte_pct := 15\<rparr>) = ''conversational'' \<and>
   tier (s\<lparr>tool_result_byte_pct := 0\<rparr>) = ''conversational''"
  by (simp add: tier_def TIER_TOOL_HEAVY_def TIER_MIXED_def)

section \<open>Properties of the analyzer's loop\<close>

lemma shift_initial [simp]: "shift initial s = s"
  by (simp add: shift_def initial_def)

lemma shift_chars:
  "(shift d s)\<lparr>content_chars := content_chars (shift d s) + n\<rparr>
     = shift (d\<lparr>content_chars := content_chars d + n\<rparr>) s"
  by (simp add: shift_def add.assoc)

lemma shift_tool_result:
  "(shift d s)\<lparr>tr_b := tr_b (shift d s) + n,
      tool_result_count := Suc (tool_result_count (shift d s))\<rparr>
     = shift (d\<lparr>tr_b := tr_b d + n, tool_result_count := Suc (tool_result_count d)\<rparr>) s"
  by (simp add: shift_def add.assoc)

lemma shift_thinking:
  "(shift d s)\<lparr>sig_b := sig_b (shift d s) + n,
      thinking_count := Suc (thinking_count (shift d s))\<rparr>
     = shift (d\<lparr>sig_b := sig_b d + n, thinking_count := Suc (thinking_count d)\<rparr>) s"
  by (simp add: shift_def add.assoc)

lemma shift_tool_use:
  "(shift d s)\<lparr>tu_b := tu_b (shift d s) + n,
      tool_use_count := Suc (tool_use_count (shift d s))\<rparr>
     = shift (d\<lparr>tu_b := tu_b d + n, tool_use_count := Suc (tool_use_count d)\<rparr>) s"
  by (simp add: shift_def add.assoc)

lemma scan_inner_shift:
  "scan_inner ibs (shift d s) = map_sum id (\<lambda>d'. shift d' s) (scan_inner ibs d)"
proof (induction ibs arbitrary: d)
  case Nil
  show ?case by simp
next
  case (Cons ib rest)
  show ?case
  proof (cases ib)
    case (JObj kv)
    show ?thesis
    proof (cases "dict_get kv ''type'' = JStr ''text''")
      case True
      show ?thesis
      proof (cases "py_len (dict_get_default kv ''text'' (JStr []))")
        case (Inl e)
        then show ?thesis using JObj True by simp
      next
        case (Inr n)
        then show ?thesis using JObj True Cons.IH[of "d\<lparr>content_chars := content_chars d + n\<rparr>"]
          by (simp add: shift_chars)
      qed
    next
      case False
      then show ?thesis using JObj Cons.IH[of d] by simp
    qed
  qed (simp_all add: Cons.IH)
qed

lemma scan_tool_result_shift:
  "scan_tool_result kv (shift d s) = map_sum id (\<lambda>d'. shift d' s) (scan_tool_result kv d)"
  by (cases "dict_get kv ''content''")
     (simp_all add: scan_tool_result_def Let_def shift_tool_result shift_chars scan_inner_shift
        del: dumps.simps)

lemma scan_thinking_shift:
  "scan_thinking kv (shift d s) = shift (scan_thinking kv d) s"
  by (cases "dict_get kv ''thinking''")
     (simp_all add: scan_thinking_def Let_def shift_thinking shift_chars del: dumps.simps)

lemma scan_tool_use_shift:
  "scan_tool_use kv (shift d s) = shift (scan_tool_use kv d) s"
  by (simp add: scan_tool_use_def Let_def shift_tool_use shift_chars del: dumps.simps)

lemma scan_block_shift:
  "scan_block b (shift d s) = map_sum id (\<lambda>d'. shift d' s) (scan_block b d)"
proof (cases b)
  case (JObj kv)
  show ?thesis
    unfolding JObj scan_block_def
    by (cases "dict_get kv ''text''")
       (simp_all add: Let_def scan_tool_result_shift scan_thinking_shift scan_tool_use_shift
          shift_chars)
qed (simp_all add: scan_block_def)

lemma scan_blocks_shift:
  "scan_blocks bs (shift d s) = map_sum id (\<lambda>d'. shift d' s) (scan_blocks bs d)"
proof (induction bs arbitrary: d)
  case Nil
  show ?case by simp
next
  case (Cons b rest)
  show ?case
  proof (cases "scan_block b d")
    case (Inl e)
    then show ?thesis by (simp add: scan_block_shift)
  next
    case (Inr d1)
    then show ?thesis by (simp add: scan_block_shift Cons.IH)
  qed
qed

lemma scan_content_shift:
  "scan_content c (shift d s) = map_sum id (\<lambda>d'. shift d' s) (scan_content c d)"
  by (cases c) (simp_all add: scan_content_def scan_blocks_shift shift_chars)

lemma scan_content_from:
  "scan_content c s = map_sum id (\<lambda>d. shift d s) (scan_content c initial)"
  using scan_content_shift[of c initial s] by simp

lemma record_usage_cases:
  assumes "record_usage p s = Inr s'"
  shows "s' = s \<or> (\<exists>a. 0 < a \<and>
           s' = s\<lparr>last_api_input_tokens := Some a, content_chars_at_last_api := content_chars s\<rparr>)"
proof (cases "find_usage p")
  case (JObj usage)
  show ?thesis
  proof (cases "dict_get usage ''input_tokens'' \<noteq> JNull")
    case True
    from assms JObj True obtain api where api: "api_input_of usage = Inr api"
      by (cases "api_input_of usage") (simp_all add: record_usage_def)
    from assms JObj True api obtain pos where pos: "py_gt0 api = Inr pos"
      by (cases "py_gt0 api") (simp_all add: record_usage_def)
    show ?thesis
    proof (cases "pos \<and> as_int api \<noteq> last_api_input_tokens s")
      case True
      from pos True obtain a where a: "as_int api = Some a" "0 < a"
        by (cases "as_int api") (auto simp: py_gt0_def)
      from assms JObj \<open>dict_get usage ''input_tokens'' \<noteq> JNull\<close> api pos True a
      show ?thesis by (auto simp: record_usage_def)
    next
      case False
      with assms JObj \<open>dict_get usage ''input_tokens'' \<noteq> JNull\<close> api pos
      show ?thesis by (auto simp: record_usage_def)
    qed
  next
    case False
    with assms JObj show ?thesis by (simp add: record_usage_def)
  qed
qed (use assms in \<open>simp_all add: record_usage_def\<close>)

lemma record_usage_error:
  assumes "record_usage p s = Inl e"
  shows "record_usage p t = Inl e"
proof (cases "find_usage p")
  case (JObj usage)
  show ?thesis
  proof (cases "dict_get usage ''input_tokens'' \<noteq> JNull")
    case True
    show ?thesis
    proof (cases "api_input_of usage")
      case (Inl e')
      with assms JObj True show ?thesis by (simp add: record_usage_def)
    next
      case (Inr api)
      show ?thesis
      proof (cases "py_gt0 api")
        case (Inl e')
        with assms JObj True Inr show ?thesis by (simp add: record_usage_def)
      next
        case pos: (Inr pos)
        with assms JObj True Inr show ?thesis
          by (simp add: record_usage_def split: if_splits)
      qed
    qed
  next
    case False
    with assms JObj show ?thesis by (simp add: record_usage_def)
  qed
qed (use assms in \<open>simp_all add: record_usage_def\<close>)

lemma ordinary_result:
  assumes "ordinary p lb s = Inr s'"
  shows "(dict_get p ''type'' = JStr ''file-history-snapshot'' \<and>
          s' = s\<lparr>total_bytes := total_bytes s + lb,
                 file_history_bytes := file_history_bytes s + lb,
                 file_history_count := file_history_count s + 1\<rparr>)
       \<or> (dict_get p ''type'' = JStr ''queue-operation'' \<and>
          s' = s\<lparr>total_bytes := total_bytes s + lb, other_bytes := other_bytes s + lb\<rparr>)
       \<or> (dict_get p ''type'' \<noteq> JStr ''file-history-snapshot'' \<and>
          dict_get p ''type'' \<noteq> JStr ''queue-operation'' \<and>
          (\<exists>d mu ma la ca.
            scan_content (find_content p) initial = Inr d \<and>
            s' = settle (py_or (dict_get p ''role'') (dict_get p ''type'')) lb
                   (shift d (s\<lparr>total_bytes := total_bytes s + lb, msg_user := mu,
                                msg_assistant := ma, last_api_input_tokens := la,
                                content_chars_at_last_api := ca,
                                tr_b := 0, sig_b := 0, tu_b := 0\<rparr>)) \<and>
            ((la = last_api_input_tokens s \<and> ca = content_chars_at_last_api s)
             \<or> (\<exists>a. 0 < a \<and> la = Some a \<and> ca = content_chars s))))"
proof (cases "dict_get p ''type'' = JStr ''file-history-snapshot''")
  case True
  with assms show ?thesis by (simp add: ordinary_def Let_def)
next
  case nfh: False
  show ?thesis
  proof (cases "dict_get p ''type'' = JStr ''queue-operation''")
    case True
    with assms nfh show ?thesis by (simp add: ordinary_def Let_def)
  next
    case nq: False
    define role where "role = py_or (dict_get p ''role'') (dict_get p ''type'')"
    define s1 where "s1 = s\<lparr>total_bytes := total_bytes s + lb\<rparr>"
    define s2 where "s2 = (if is_user role then s1\<lparr>msg_user := msg_user s1 + 1\<rparr> else s1)"
    define u where "u = (if role = JStr ''assistant''
                  then record_usage p (s2\<lparr>msg_assistant := msg_assistant s2 + 1\<rparr>)
                  else Inr s2)"
    have unf: "ordinary p lb s =
       (case u of Inl e \<Rightarrow> Inl e
        | Inr s3 \<Rightarrow>
            (case scan_content (find_content p) (s3\<lparr>tr_b := 0, sig_b := 0, tu_b := 0\<rparr>) of
               Inl e \<Rightarrow> Inl e
             | Inr s4 \<Rightarrow> Inr (settle role lb s4)))"
      unfolding u_def s2_def s1_def role_def ordinary_def Let_def using nfh nq by simp
    from assms unf obtain s3 where s3: "u = Inr s3"
      by (cases u) simp_all
    from assms unf s3 obtain s4 where
      s4: "scan_content (find_content p) (s3\<lparr>tr_b := 0, sig_b := 0, tu_b := 0\<rparr>) = Inr s4"
      and s': "s' = settle role lb s4"
      by (cases "scan_content (find_content p) (s3\<lparr>tr_b := 0, sig_b := 0, tu_b := 0\<rparr>)") simp_all
    from s4 obtain d where d: "scan_content (find_content p) initial = Inr d"
      and s4d: "s4 = shift d (s3\<lparr>tr_b := 0, sig_b := 0, tu_b := 0\<rparr>)"
      using scan_content_from[of "find_content p" "s3\<lparr>tr_b := 0, sig_b := 0, tu_b := 0\<rparr>"]
      by (cases "scan_content (find_content p) initial") simp_all
    have "\<exists>mu ma la ca.
            s3 = s\<lparr>total_bytes := total_bytes s + lb, msg_user := mu,
                                msg_assistant := ma, last_api_input_tokens := la,
                                content_chars_at_last_api := ca\<rparr> \<and>
            ((la = last_api_input_tokens s \<and> ca = content_chars_at_last_api s)
             \<or> (\<exists>a. 0 < a \<and> la = Some a \<and> ca = content_chars s))"
    proof (cases "role = JStr ''assistant''")
      case False
      then have "s3 = s2" using s3 by (simp add: u_def)
      then have "s3 = s\<lparr>total_bytes := total_bytes s + lb, msg_user := msg_user s2,
                                msg_assistant := msg_assistant s, last_api_input_tokens := last_api_input_tokens s,
                                content_chars_at_last_api := content_chars_at_last_api s\<rparr>"
        by (simp add: s2_def s1_def)
      then show ?thesis by blast
    next
      case True
      define s2a where "s2a = s2\<lparr>msg_assistant := msg_assistant s2 + 1\<rparr>"
      have ru: "record_usage p s2a = Inr s3" using s3 True by (simp add: u_def s2a_def)
      have cc: "content_chars s2a = content_chars s"
        "last_api_input_tokens s2a = last_api_input_tokens s"
        "content_chars_at_last_api s2a = content_chars_at_last_api s"
        by (simp_all add: s2a_def s2_def s1_def)
      define mu where "mu = (if is_user role then msg_user s + 1 else msg_user s)"
      have e2a: "s2a = s\<lparr>total_bytes := total_bytes s + lb, msg_user := mu,
                                msg_assistant := msg_assistant s + 1\<rparr>"
        by (simp add: s2a_def s2_def s1_def mu_def)
      from record_usage_cases[OF ru] show ?thesis
      proof
        assume "s3 = s2a"
        then have "s3 = s\<lparr>total_bytes := total_bytes s + lb, msg_user := mu,
                                msg_assistant := msg_assistant s + 1, last_api_input_tokens := last_api_input_tokens s,
                                content_chars_at_last_api := content_chars_at_last_api s\<rparr>"
          by (simp add: e2a)
        then show ?thesis by blast
      next
        assume "\<exists>a. 0 < a \<and> s3 = s2a\<lparr>last_api_input_tokens := Some a,
                     content_chars_at_last_api := content_chars s2a\<rparr>"
        then obtain a where a: "0 < a" "s3 = s2a\<lparr>last_api_input_tokens := Some a,
                     content_chars_at_last_api := content_chars s2a\<rparr>" by blast
        have "s3 = s\<lparr>total_bytes := total_bytes s + lb, msg_user := mu,
                                msg_assistant := msg_assistant s + 1, last_api_input_tokens := Some a,
                                content_chars_at_last_api := content_chars s\<rparr>"
          unfolding a(2) cc(1) by (simp add: e2a)
        with a(1) show ?thesis by blast
      qed
    qed
    then obtain mu ma la ca where
      e3: "s3 = s\<lparr>total_bytes := total_bytes s + lb, msg_user := mu,
                                msg_assistant := ma, last_api_input_tokens := la,
                                content_chars_at_last_api := ca\<rparr>"
      and an: "(la = last_api_input_tokens s \<and> ca = content_chars_at_last_api s)
             \<or> (\<exists>a. 0 < a \<and> la = Some a \<and> ca = content_chars s)"
      by blast
    have "s' = settle role lb
                   (shift d (s\<lparr>total_bytes := total_bytes s + lb, msg_user := mu,
                                msg_assistant := ma, last_api_input_tokens := la,
                                content_chars_at_last_api := ca,
                                tr_b := 0, sig_b := 0, tu_b := 0\<rparr>))"
      unfolding s' s4d e3 by simp
    with d an nfh nq show ?thesis unfolding role_def by blast
  qed
qed

lemma ordinary_error:
  assumes "ordinary p lb s = Inl e"
  shows "ordinary p lb t = Inl e"
proof -
  have nfh: "dict_get p ''type'' \<noteq> JStr ''file-history-snapshot''"
    using assms by (auto simp: ordinary_def Let_def)
  have nq: "dict_get p ''type'' \<noteq> JStr ''queue-operation''"
    using assms nfh by (auto simp: ordinary_def Let_def)
  define role where "role = py_or (dict_get p ''role'') (dict_get p ''type'')"
  define u where "u = (\<lambda>s. let s1 = s\<lparr>total_bytes := total_bytes s + lb\<rparr>;
                  s2 = (if is_user role then s1\<lparr>msg_user := msg_user s1 + 1\<rparr> else s1)
               in if role = JStr ''assistant''
                  then record_usage p (s2\<lparr>msg_assistant := msg_assistant s2 + 1\<rparr>)
                  else Inr s2)"
  have unf: "\<And>s. ordinary p lb s =
       (case u s of Inl e \<Rightarrow> Inl e
        | Inr s3 \<Rightarrow>
            (case scan_content (find_content p) (s3\<lparr>tr_b := 0, sig_b := 0, tu_b := 0\<rparr>) of
               Inl e \<Rightarrow> Inl e
             | Inr s4 \<Rightarrow> Inr (settle role lb s4)))"
    unfolding u_def role_def ordinary_def Let_def using nfh nq by simp
  have uerr: "\<And>e'. u s = Inl e' \<Longrightarrow> u t = Inl e'"
    unfolding u_def Let_def by (auto split: if_splits dest: record_usage_error)
  have uerr': "\<And>e'. u t = Inl e' \<Longrightarrow> u s = Inl e'"
    unfolding u_def Let_def by (auto split: if_splits dest: record_usage_error)
  have scan: "\<And>s3. scan_content (find_content p) (s3\<lparr>tr_b := 0, sig_b := 0, tu_b := 0\<rparr>)
      = map_sum id (\<lambda>d. shift d (s3\<lparr>tr_b := 0, sig_b := 0, tu_b := 0\<rparr>)) (scan_content (find_content p) initial)"
    by (rule scan_content_from)
  show ?thesis
  proof (cases "u s")
    case (Inl e')
    with assms unf[of s] have "e' = e" by simp
    with Inl uerr[of e'] show ?thesis by (simp add: unf[of t])
  next
    case (Inr s3)
    obtain t3 where t3: "u t = Inr t3"
      using uerr'[of _] Inr by (cases "u t") auto
    from assms unf[of s] Inr scan[of s3]
    have "scan_content (find_content p) initial = Inl e"
      by (cases "scan_content (find_content p) initial") simp_all
    then show ?thesis using t3 scan[of t3] by (simp add: unf[of t])
  qed
qed

lemma process_line_blank:
  "blank (rstrip_nl (raw l)) \<Longrightarrow> process_line l s = Inr s"
  by (simp add: process_line_def)

lemma process_line_malformed:
  "\<not> blank (rstrip_nl (raw l)) \<Longrightarrow> json_loads l = None \<Longrightarrow>
   process_line l s = Inr (s\<lparr>total_bytes := total_bytes s + line_bytes_of l,
                              other_bytes := other_bytes s + line_bytes_of l\<rparr>)"
  by (simp add: process_line_def line_bytes_of_def Let_def)

lemma process_line_compaction:
  "\<not> blank (rstrip_nl (raw l)) \<Longrightarrow> json_loads l = Some (JObj p) \<Longrightarrow> is_compaction p \<Longrightarrow>
   process_line l s = compaction p (line_bytes_of l) s"
  by (simp add: process_line_def line_bytes_of_def Let_def)

lemma process_line_ordinary:
  "\<not> blank (rstrip_nl (raw l)) \<Longrightarrow> json_loads l = Some (JObj p) \<Longrightarrow> \<not> is_compaction p \<Longrightarrow>
   process_line l s = ordinary p (line_bytes_of l) s"
  by (simp add: process_line_def line_bytes_of_def Let_def)

lemma process_line_not_object:
  "\<not> blank (rstrip_nl (raw l)) \<Longrightarrow> json_loads l = Some j \<Longrightarrow> \<nexists>p. j = JObj p \<Longrightarrow>
   process_line l s = Inl AttributeError"
  by (cases j) (simp_all add: process_line_def Let_def)

text \<open>The shapes a line can have.\<close>

lemma line_shapes:
  obtains (blank) "blank (rstrip_nl (raw l))"
  | (malformed) "\<not> blank (rstrip_nl (raw l))" "json_loads l = None"
  | (not_object) j where "\<not> blank (rstrip_nl (raw l))" "json_loads l = Some j" "\<nexists>p. j = JObj p"
  | (boundary) p where "\<not> blank (rstrip_nl (raw l))" "json_loads l = Some (JObj p)" "is_compaction p"
  | (ordinary) p where "\<not> blank (rstrip_nl (raw l))" "json_loads l = Some (JObj p)" "\<not> is_compaction p"
proof (cases "blank (rstrip_nl (raw l))")
  case True
  then show ?thesis by (rule blank)
next
  case nb: False
  show ?thesis
  proof (cases "json_loads l")
    case None
    with nb show ?thesis by (rule malformed)
  next
    case (Some j)
    show ?thesis
    proof (cases j)
      case (JObj p)
      show ?thesis
      proof (cases "is_compaction p")
        case True
        with nb Some JObj show ?thesis by (auto intro: boundary)
      next
        case False
        with nb Some JObj show ?thesis by (auto intro: ordinary)
      qed
    qed (use nb Some in \<open>auto intro: not_object\<close>)
  qed
qed

lemma byte_counters_settle:
  "byte_counters (settle role lb
      (shift d (s\<lparr>total_bytes := total_bytes s + lb, msg_user := mu,
                   msg_assistant := ma, last_api_input_tokens := la,
                   content_chars_at_last_api := ca,
                   tr_b := 0, sig_b := 0, tu_b := 0\<rparr>)))
   = (total_bytes s + lb,
      tool_result_bytes s + tr_b d,
      thinking_bytes s + sig_b d,
      file_history_bytes s,
      conversation_bytes s
        + (if is_user role \<or> role = JStr ''assistant''
           then nat (max 0 (int lb - int (tr_b d + sig_b d + tu_b d))) else 0),
      tool_use_bytes s + tu_b d,
      other_bytes s
        + (if is_user role \<or> role = JStr ''assistant''
           then 0 else nat (max 0 (int lb - int (tr_b d + sig_b d + tu_b d)))))"
  by (simp add: byte_counters_def settle_def shift_def Let_def)

lemma byte_counters_eqD:
  "byte_counters s = byte_counters t \<Longrightarrow>
     total_bytes s = total_bytes t \<and> tool_result_bytes s = tool_result_bytes t \<and>
     thinking_bytes s = thinking_bytes t \<and> file_history_bytes s = file_history_bytes t \<and>
     conversation_bytes s = conversation_bytes t \<and> tool_use_bytes s = tool_use_bytes t \<and>
     other_bytes s = other_bytes t"
  by (simp add: byte_counters_def)

lemma ordinary_file_history:
  "dict_get p ''type'' = JStr ''file-history-snapshot'' \<Longrightarrow>
   ordinary p lb s = Inr (s\<lparr>total_bytes := total_bytes s + lb,
                 file_history_bytes := file_history_bytes s + lb,
                 file_history_count := file_history_count s + 1\<rparr>)"
  by (simp add: ordinary_def Let_def)

lemma ordinary_queue:
  "dict_get p ''type'' = JStr ''queue-operation'' \<Longrightarrow>
   ordinary p lb s = Inr (s\<lparr>total_bytes := total_bytes s + lb,
                              other_bytes := other_bytes s + lb\<rparr>)"
  by (simp add: ordinary_def Let_def)

lemma ordinary_turn:
  assumes "dict_get p ''type'' \<noteq> JStr ''file-history-snapshot''"
    and "dict_get p ''type'' \<noteq> JStr ''queue-operation''"
    and "ordinary p lb s = Inr s'"
  shows "\<exists>d mu ma la ca.
            scan_content (find_content p) initial = Inr d \<and>
            s' = settle (py_or (dict_get p ''role'') (dict_get p ''type'')) lb
                   (shift d (s\<lparr>total_bytes := total_bytes s + lb, msg_user := mu,
                                msg_assistant := ma, last_api_input_tokens := la,
                                content_chars_at_last_api := ca,
                                tr_b := 0, sig_b := 0, tu_b := 0\<rparr>)) \<and>
            ((la = last_api_input_tokens s \<and> ca = content_chars_at_last_api s)
             \<or> (\<exists>a. 0 < a \<and> la = Some a \<and> ca = content_chars s))"
  using ordinary_result[OF assms(3)] assms(1,2) by blast

lemma ordinary_turn_bytes:
  assumes "dict_get p ''type'' \<noteq> JStr ''file-history-snapshot''"
    and "dict_get p ''type'' \<noteq> JStr ''queue-operation''"
    and "ordinary p lb s = Inr s'"
    and "scan_content (find_content p) initial = Inr d"
  shows "byte_counters s' =
     (total_bytes s + lb,
      tool_result_bytes s + tr_b d,
      thinking_bytes s + sig_b d,
      file_history_bytes s,
      conversation_bytes s
        + (if is_user (py_or (dict_get p ''role'') (dict_get p ''type''))
              \<or> py_or (dict_get p ''role'') (dict_get p ''type'') = JStr ''assistant''
           then nat (max 0 (int lb - int (tr_b d + sig_b d + tu_b d))) else 0),
      tool_use_bytes s + tu_b d,
      other_bytes s
        + (if is_user (py_or (dict_get p ''role'') (dict_get p ''type''))
              \<or> py_or (dict_get p ''role'') (dict_get p ''type'') = JStr ''assistant''
           then 0 else nat (max 0 (int lb - int (tr_b d + sig_b d + tu_b d)))))"
proof -
  from ordinary_turn[OF assms(1-3)] assms(4) obtain mu ma la ca where
    "s' = settle (py_or (dict_get p ''role'') (dict_get p ''type'')) lb
                   (shift d (s\<lparr>total_bytes := total_bytes s + lb, msg_user := mu,
                                msg_assistant := ma, last_api_input_tokens := la,
                                content_chars_at_last_api := ca,
                                tr_b := 0, sig_b := 0, tu_b := 0\<rparr>))"
    by auto
  then show ?thesis by (simp only: byte_counters_settle)
qed

lemma ordinary_byte_counters:
  assumes "byte_counters s = byte_counters t"
  shows "map_sum id byte_counters (ordinary p lb s) = map_sum id byte_counters (ordinary p lb t)"
proof (cases "ordinary p lb s")
  case (Inl e)
  then show ?thesis using ordinary_error[of p lb s e t] by simp
next
  case s': (Inr s')
  have "\<exists>t'. ordinary p lb t = Inr t'"
  proof (cases "ordinary p lb t")
    case (Inl e)
    from ordinary_error[OF this, of s] s' show ?thesis by simp
  qed blast
  then obtain t' where t': "ordinary p lb t = Inr t'" by blast
  note eq = byte_counters_eqD[OF assms]
  have "byte_counters s' = byte_counters t'"
  proof (cases "dict_get p ''type'' = JStr ''file-history-snapshot''")
    case True
    from ordinary_file_history[OF True, of lb s] ordinary_file_history[OF True, of lb t] s' t'
    show ?thesis using eq by (auto simp: byte_counters_def)
  next
    case nfh: False
    show ?thesis
    proof (cases "dict_get p ''type'' = JStr ''queue-operation''")
      case True
      from ordinary_queue[OF True, of lb s] ordinary_queue[OF True, of lb t] s' t'
      show ?thesis using eq by (auto simp: byte_counters_def)
    next
      case nq: False
      from ordinary_turn[OF nfh nq s'] obtain d where
        d: "scan_content (find_content p) initial = Inr d" by blast
      show ?thesis
        unfolding ordinary_turn_bytes[OF nfh nq s' d] ordinary_turn_bytes[OF nfh nq t' d]
        using eq by simp
    qed
  qed
  then show ?thesis using s' t' by simp
qed

lemma compaction_byte_counters:
  "map_sum id byte_counters (compaction p lb s) = map_sum id byte_counters (compaction p lb t)"
  by (cases "py_len (compaction_summary p)")
     (simp_all add: compaction_def Let_def byte_counters_def)

lemma process_line_byte_counters:
  assumes "byte_counters s = byte_counters t"
  shows "map_sum id byte_counters (process_line l s) = map_sum id byte_counters (process_line l t)"
proof (cases l rule: line_shapes)
  case blank
  then show ?thesis using assms by (simp add: process_line_blank)
next
  case malformed
  then show ?thesis using byte_counters_eqD[OF assms]
    by (simp add: process_line_malformed byte_counters_def)
next
  case (not_object j)
  then show ?thesis by (simp add: process_line_not_object)
next
  case (boundary p)
  then show ?thesis by (simp add: process_line_compaction compaction_byte_counters)
next
  case (ordinary p)
  then show ?thesis by (simp add: process_line_ordinary ordinary_byte_counters[OF assms])
qed

lemma process_lines_byte_counters:
  assumes "byte_counters s = byte_counters t"
  shows "map_sum id byte_counters (process_lines ls s) = map_sum id byte_counters (process_lines ls t)"
  using assms
proof (induction ls arbitrary: s t)
  case Nil
  then show ?case by simp
next
  case (Cons l ls)
  note step = process_line_byte_counters[OF Cons.prems, of l]
  show ?case
  proof (cases "process_line l s")
    case (Inl e)
    with step show ?thesis by (cases "process_line l t") simp_all
  next
    case s': (Inr s')
    with step obtain t' where t': "process_line l t = Inr t'"
      and eq: "byte_counters s' = byte_counters t'"
      by (cases "process_line l t") simp_all
    from Cons.IH[OF eq] s' t' show ?thesis by simp
  qed
qed

lemma process_lines_append:
  "process_lines (xs @ ys) s =
     (case process_lines xs s of Inl e \<Rightarrow> Inl e | Inr s' \<Rightarrow> process_lines ys s')"
  by (induction xs arbitrary: s) (simp_all split: sum.splits)

lemma compaction_unfold:
  "compaction p lb s =
     (if truthy (compaction_summary p)
      then (case py_len (compaction_summary p) of
              Inl e \<Rightarrow> Inl e
            | Inr n \<Rightarrow>
                Inr (s\<lparr>total_bytes := lb, tool_result_bytes := 0, tool_result_count := 0,
                        thinking_bytes := 0, thinking_count := 0, file_history_bytes := 0,
                        file_history_count := 0, conversation_bytes := lb,
                        tool_use_bytes := 0, tool_use_count := 0, other_bytes := 0,
                        content_chars := n, msg_user := 0, msg_assistant := 0,
                        content_chars_at_last_api := 0\<rparr>))
      else Inr (s\<lparr>total_bytes := lb, tool_result_bytes := 0, tool_result_count := 0,
                   thinking_bytes := 0, thinking_count := 0, file_history_bytes := 0,
                   file_history_count := 0, conversation_bytes := 0,
                   tool_use_bytes := 0, tool_use_count := 0, other_bytes := 0,
                   content_chars := 0, msg_user := 0, msg_assistant := 0,
                   content_chars_at_last_api := 0\<rparr>))"
  by (simp add: compaction_def Let_def split: sum.splits)

lemma category_sum_byte_counters:
  "byte_counters s = (a, b, c, d, e, f, g) \<Longrightarrow>
     total_bytes s = a \<and> category_sum s = b + c + d + e + f + g"
  by (simp add: byte_counters_def category_sum_def)

lemma accounted_of_ordinary:
  assumes "json_loads l = Some (JObj p)"
    and "scan_content (find_content p) initial = Inr d"
  shows "accounted_of l = tr_b d + sig_b d + tu_b d"
  using assms by (simp add: accounted_of_def)

lemma process_line_category_sum:
  assumes acc: "accounted_of l \<le> line_bytes_of l"
    and inv: "category_sum s \<le> total_bytes s"
    and step: "process_line l s = Inr s'"
  shows "category_sum s' \<le> total_bytes s'"
proof (cases l rule: line_shapes)
  case blank
  with step inv show ?thesis by (simp add: process_line_blank)
next
  case malformed
  with step inv show ?thesis
    by (auto simp: process_line_malformed category_sum_def)
next
  case (not_object j)
  with step show ?thesis by (simp add: process_line_not_object)
next
  case (boundary p)
  with step have "compaction p (line_bytes_of l) s = Inr s'"
    by (simp add: process_line_compaction)
  then show ?thesis
    by (auto simp: compaction_unfold category_sum_def split: if_splits sum.splits)
next
  case (ordinary p)
  with step have o: "ordinary p (line_bytes_of l) s = Inr s'"
    by (simp add: process_line_ordinary)
  show ?thesis
  proof (cases "dict_get p ''type'' = JStr ''file-history-snapshot''")
    case True
    from ordinary_file_history[OF True, of "line_bytes_of l" s] o inv
    show ?thesis by (auto simp: category_sum_def)
  next
    case nfh: False
    show ?thesis
    proof (cases "dict_get p ''type'' = JStr ''queue-operation''")
      case True
      from ordinary_queue[OF True, of "line_bytes_of l" s] o inv
      show ?thesis by (auto simp: category_sum_def)
    next
      case nq: False
      from ordinary_turn[OF nfh nq o] obtain d where
        d: "scan_content (find_content p) initial = Inr d" by blast
      have a: "tr_b d + sig_b d + tu_b d \<le> line_bytes_of l"
        using acc accounted_of_ordinary[OF ordinary(2) d] by simp
      note bc = category_sum_byte_counters[OF ordinary_turn_bytes[OF nfh nq o d]]
      have inv': "tool_result_bytes s + thinking_bytes s + file_history_bytes s
                  + conversation_bytes s + tool_use_bytes s + other_bytes s \<le> total_bytes s"
        using inv by (simp add: category_sum_def)
      show ?thesis
        using a inv' by (auto simp: bc)
    qed
  qed
qed

lemma process_lines_category_sum:
  assumes "\<forall>l\<in>set ls. accounted_of l \<le> line_bytes_of l"
    and "category_sum s \<le> total_bytes s"
    and "process_lines ls s = Inr s'"
  shows "category_sum s' \<le> total_bytes s'"
  using assms
proof (induction ls arbitrary: s)
  case Nil
  then show ?case by simp
next
  case (Cons l ls)
  from Cons.prems(3) obtain s1 where s1: "process_line l s = Inr s1"
    and rest: "process_lines ls s1 = Inr s'"
    by (cases "process_line l s") simp_all
  have "category_sum s1 \<le> total_bytes s1"
    using process_line_category_sum[OF _ Cons.prems(2) s1] Cons.prems(1) by simp
  from Cons.IH[OF _ this rest] Cons.prems(1) show ?case by simp
qed

lemma summarize_Some:
  assumes "summarize sid pj s = Inr (Some r)"
  shows "10 \<le> msg_user s + msg_assistant s \<and>
    (\<exists>post0 red pct.
       estimate_post_trim s (estimate_tokens s) = Inr post0 \<and>
       reduction_of (estimate_tokens s) (min post0 (estimate_tokens s)) = Inr red \<and>
       tool_result_pct s = Inr pct \<and>
       r = \<lparr>session_id = sid,
            project = pj,
            estimated_tokens = estimate_tokens s,
            post_trim_tokens = min post0 (estimate_tokens s),
            reduction_pct = red,
            message_count = int (msg_user s + msg_assistant s),
            breakeven_turns = 0,
            cache_miss_penalty = 0,
            savings_per_turn = 0,
            tool_result_byte_pct = pct,
            SessionData.tool_result_bytes = int (tool_result_bytes s),
            SessionData.thinking_bytes = int (thinking_bytes s),
            SessionData.file_history_bytes = int (file_history_bytes s),
            SessionData.conversation_bytes = int (conversation_bytes s),
            SessionData.tool_use_bytes = int (tool_use_bytes s),
            SessionData.other_bytes = int (other_bytes s),
            SessionData.total_bytes = int (total_bytes s),
            SessionData.tool_result_count = int (tool_result_count s)\<rparr>)"
proof -
  have ge: "10 \<le> msg_user s + msg_assistant s"
    using assms by (auto simp: summarize_def split: if_splits)
  obtain post0 where p0: "estimate_post_trim s (estimate_tokens s) = Inr post0"
    using assms ge by (cases "estimate_post_trim s (estimate_tokens s)") (auto simp: summarize_def Let_def)
  obtain red where red: "reduction_of (estimate_tokens s) (min post0 (estimate_tokens s)) = Inr red"
    using assms ge p0
    by (cases "reduction_of (estimate_tokens s) (min post0 (estimate_tokens s))")
       (auto simp: summarize_def Let_def)
  obtain pct where pct: "tool_result_pct s = Inr pct"
    using assms ge p0 red by (cases "tool_result_pct s") (auto simp: summarize_def Let_def)
  show ?thesis
    using assms ge p0 red pct by (simp add: summarize_def Let_def)
qed

lemma analyze_session_Some:
  assumes "analyze_session f = Inr (Some r)"
  shows "\<exists>sz ls s. getsize f = Some sz \<and> 100 \<le> sz \<and> opened f = Some ls \<and>
           process_lines ls initial = Inr s \<and>
           summarize (stem f) (parent_name f) s = Inr (Some r)"
  using assms
  by (auto simp: analyze_session_def split: option.splits if_splits sum.splits)

lemma category_sum_initial: "category_sum initial \<le> total_bytes initial"
  by (simp add: category_sum_def initial_def)

lemma summarize_record_byte_counters:
  assumes "summarize sid pj s = Inr (Some r)"
  shows "record_byte_counters r =
     (int (total_bytes s), int (tool_result_bytes s), int (thinking_bytes s),
      int (file_history_bytes s), int (conversation_bytes s), int (tool_use_bytes s),
      int (other_bytes s))"
  using summarize_Some[OF assms] by (auto simp: record_byte_counters_def)

section \<open>Properties of the estimates\<close>

lemma py_round_cases: "py_round x = \<lfloor>x\<rfloor> \<or> (py_round x = \<lfloor>x\<rfloor> + 1 \<and> 1 / 2 \<le> x - real_of_int \<lfloor>x\<rfloor>)"
  by (auto simp: py_round_def Let_def)

lemma py_round_nonneg: "0 \<le> x \<Longrightarrow> 0 \<le> py_round x"
  using py_round_cases[of x] by (auto simp: zero_le_floor) 

lemma py_round_le: "x \<le> real_of_int n \<Longrightarrow> py_round x \<le> n"
proof -
  assume le: "x \<le> real_of_int n"
  from py_round_cases[of x] show ?thesis
  proof
    assume "py_round x = \<lfloor>x\<rfloor>"
    then show ?thesis using floor_mono[OF le] by simp
  next
    assume a: "py_round x = \<lfloor>x\<rfloor> + 1 \<and> 1 / 2 \<le> x - real_of_int \<lfloor>x\<rfloor>"
    then have "real_of_int \<lfloor>x\<rfloor> < x" by linarith
    with le have "real_of_int \<lfloor>x\<rfloor> < real_of_int n" by linarith
    then have "\<lfloor>x\<rfloor> < n" by simp
    with a show ?thesis by simp
  qed
qed

lemma py_round_0 [simp]: "py_round 0 = 0"
  by (simp add: py_round_def)

lemma py_round1_0 [simp]: "py_round1 0 = 0"
  by (simp add: py_round1_def)

lemma py_round1_bounds:
  assumes "0 \<le> x" "x \<le> 100"
  shows "0 \<le> py_round1 x \<and> py_round1 x \<le> 100"
proof -
  have "0 \<le> py_round (x * 10)" using assms(1) by (intro py_round_nonneg) simp
  moreover have "py_round (x * 10) \<le> 1000" using assms(2) by (intro py_round_le) simp
  ultimately show ?thesis by (simp add: py_round1_def)
qed

text \<open>The post-trim estimate before the final clamp.\<close>

lemma estimate_post_trim_cases:
  assumes "estimate_post_trim s est = Inr post0"
  shows "post0 = est \<or> (\<exists>k. 0 \<le> k \<and> post0 = k + SYSTEM_OVERHEAD \<and> (est \<le> SYSTEM_OVERHEAD \<longrightarrow> k = 0))"
proof (cases "total_bytes s > 0")
  case False
  with assms show ?thesis by (simp add: estimate_post_trim_def)
next
  case True
  from assms True obtain removed where r: "removed_bytes s = Inr removed"
    by (cases "removed_bytes s") (simp_all add: estimate_post_trim_def)
  from assms True r obtain tb where tb: "to_float (int (total_bytes s)) = Inr tb"
    by (cases "to_float (int (total_bytes s))") (simp_all add: estimate_post_trim_def)
  define ratio where "ratio = max 0 (min 0.95 (removed / tb))"
  define content_tok where "content_tok = max 0 (est - SYSTEM_OVERHEAD)"
  from assms True r tb obtain ct where ct: "to_float content_tok = Inr ct"
    and p: "post0 = py_round (ct * (1 - ratio)) + SYSTEM_OVERHEAD"
    by (cases "to_float content_tok")
       (simp_all add: estimate_post_trim_def Let_def ratio_def content_tok_def)
  have ctv: "ct = real_of_int content_tok"
    using ct by (simp add: to_float_def split: if_splits)
  have "0 \<le> ct" by (simp add: ctv content_tok_def)
  moreover have "0 \<le> 1 - ratio" by (simp add: ratio_def)
  ultimately have "0 \<le> ct * (1 - ratio)" by simp
  then have k: "0 \<le> py_round (ct * (1 - ratio))" by (rule py_round_nonneg)
  have "est \<le> SYSTEM_OVERHEAD \<longrightarrow> py_round (ct * (1 - ratio)) = 0"
    by (simp add: ctv content_tok_def)
  with k p show ?thesis by blast
qed

lemma reduction_of_zero: "reduction_of est est = Inr 0"
  by (simp add: reduction_of_def int_truediv_def float_limit_def)

lemma reduction_of_bounds:
  assumes "reduction_of est post = Inr red" "0 \<le> post" "post \<le> est"
  shows "0 \<le> red \<and> red \<le> 100"
proof (cases "est > 0")
  case False
  with assms show ?thesis by (simp add: reduction_of_def)
next
  case True
  from assms(1) True obtain q where q: "int_truediv (est - post) est = Inr q"
    and red: "red = max 0 (py_round1 (q * 100))"
    by (cases "int_truediv (est - post) est") (simp_all add: reduction_of_def)
  have qv: "q = real_of_int (est - post) / real_of_int est"
    using q by (simp add: int_truediv_def split: if_splits)
  have "0 \<le> q" using True assms(3) by (simp add: qv)
  moreover have "q \<le> 1" using True assms(2) by (simp add: qv)
  ultimately have "0 \<le> q * 100" "q * 100 \<le> 100" by simp_all
  from py_round1_bounds[OF this] show ?thesis by (simp add: red)
qed

lemma anchored_initial: "anchored initial"
  by (simp add: anchored_def initial_def)

lemma settle_shift_anchor:
  "content_chars (settle role lb (shift d s)) = content_chars s + content_chars d"
  "content_chars_at_last_api (settle role lb (shift d s)) = content_chars_at_last_api s"
  "last_api_input_tokens (settle role lb (shift d s)) = last_api_input_tokens s"
  by (simp_all add: settle_def shift_def Let_def)

lemma process_line_anchored:
  assumes inv: "anchored s"
    and step: "process_line l s = Inr s'"
  shows "anchored s'"
proof (cases l rule: line_shapes)
  case blank
  with step inv show ?thesis by (simp add: process_line_blank)
next
  case malformed
  with step inv show ?thesis
    by (auto simp: process_line_malformed anchored_def)
next
  case (not_object j)
  with step show ?thesis by (simp add: process_line_not_object)
next
  case (boundary p)
  with step have "compaction p (line_bytes_of l) s = Inr s'"
    by (simp add: process_line_compaction)
  then show ?thesis using inv
    by (auto simp: compaction_unfold anchored_def split: if_splits sum.splits)
next
  case (ordinary p)
  with step have o: "ordinary p (line_bytes_of l) s = Inr s'"
    by (simp add: process_line_ordinary)
  show ?thesis
  proof (cases "dict_get p ''type'' = JStr ''file-history-snapshot''")
    case True
    from ordinary_file_history[OF True, of "line_bytes_of l" s] o inv
    show ?thesis by (auto simp: anchored_def)
  next
    case nfh: False
    show ?thesis
    proof (cases "dict_get p ''type'' = JStr ''queue-operation''")
      case True
      from ordinary_queue[OF True, of "line_bytes_of l" s] o inv
      show ?thesis by (auto simp: anchored_def)
    next
      case nq: False
      from ordinary_turn[OF nfh nq o] obtain d mu ma la ca where
        s': "s' = settle (py_or (dict_get p ''role'') (dict_get p ''type'')) (line_bytes_of l)
                   (shift d (s\<lparr>total_bytes := total_bytes s + line_bytes_of l, msg_user := mu,
                                msg_assistant := ma, last_api_input_tokens := la,
                                content_chars_at_last_api := ca,
                                tr_b := 0, sig_b := 0, tu_b := 0\<rparr>))"
        and an: "(la = last_api_input_tokens s \<and> ca = content_chars_at_last_api s)
             \<or> (\<exists>a. 0 < a \<and> la = Some a \<and> ca = content_chars s)"
        by blast
      have f: "content_chars s' = content_chars s + content_chars d"
        "content_chars_at_last_api s' = ca" "last_api_input_tokens s' = la"
        unfolding s' settle_shift_anchor by simp_all
      from an show ?thesis
      proof
        assume "la = last_api_input_tokens s \<and> ca = content_chars_at_last_api s"
        then show ?thesis using inv by (simp add: anchored_def f)
      next
        assume "\<exists>a. 0 < a \<and> la = Some a \<and> ca = content_chars s"
        then show ?thesis by (auto simp: anchored_def f)
      qed
    qed
  qed
qed

lemma process_lines_anchored:
  assumes "anchored s" and "process_lines ls s = Inr s'"
  shows "anchored s'"
  using assms
proof (induction ls arbitrary: s)
  case Nil
  then show ?case by simp
next
  case (Cons l ls)
  from Cons.prems(2) obtain s1 where s1: "process_line l s = Inr s1"
    and rest: "process_lines ls s1 = Inr s'"
    by (cases "process_line l s") simp_all
  from Cons.IH[OF process_line_anchored[OF Cons.prems(1) s1] rest] show ?case .
qed

lemma estimate_tokens_nonneg:
  assumes "anchored s"
  shows "0 \<le> estimate_tokens s"
proof (cases "last_api_input_tokens s")
  case None
  then show ?thesis by (simp add: estimate_tokens_def SYSTEM_OVERHEAD_def)
next
  case (Some a)
  with assms have "0 < a" "content_chars_at_last_api s \<le> content_chars s"
    by (simp_all add: anchored_def)
  then have "0 \<le> (int (content_chars s) - int (content_chars_at_last_api s)) div 4"
    by simp
  with \<open>0 < a\<close> Some show ?thesis by (simp add: estimate_tokens_def)
qed

text \<open>The token fields of a record that the analyzer returns.\<close>

lemma analyze_session_tokens:
  assumes "analyze_session f = Inr (Some r)"
  shows "\<exists>s post0.
           anchored s \<and>
           estimated_tokens r = estimate_tokens s \<and>
           estimate_post_trim s (estimate_tokens s) = Inr post0 \<and>
           post_trim_tokens r = min post0 (estimate_tokens s) \<and>
           reduction_of (estimate_tokens s) (min post0 (estimate_tokens s)) = Inr (reduction_pct r)"
proof -
  from analyze_session_Some[OF assms] obtain ls s where
    run: "process_lines ls initial = Inr s"
    and sm: "summarize (stem f) (parent_name f) s = Inr (Some r)"
    by blast
  have a: "anchored s" using process_lines_anchored[OF anchored_initial run] .
  from summarize_Some[OF sm] obtain post0 red where
    "estimate_post_trim s (estimate_tokens s) = Inr post0"
    "reduction_of (estimate_tokens s) (min post0 (estimate_tokens s)) = Inr red"
    "estimated_tokens r = estimate_tokens s"
    "post_trim_tokens r = min post0 (estimate_tokens s)"
    "reduction_pct r = red"
    by auto
  with a show ?thesis by blast
qed

lemma load_from_json_fields:
  assumes "load_from_json gs pr h = Inr rs"
  shows "list_all2 (\<lambda>g r. estimatedTokens g = Some (estimated_tokens r)
                        \<and> postTrimTokens g = Some (post_trim_tokens r)
                        \<and> reductionPercent g = Some (reduction_pct r)) gs rs"
  using assms
proof (induction gs arbitrary: rs)
  case Nil
  then show ?case by simp
next
  case (Cons g gs)
  from Cons.prems obtain r where r: "load_session g pr h = Inr r"
    by (cases "load_session g pr h") simp_all
  from Cons.prems r obtain rs' where rs': "load_from_json gs pr h = Inr rs'" and e: "rs = r # rs'"
    by (cases "load_from_json gs pr h") auto
  have "estimatedTokens g = Some (estimated_tokens r)
        \<and> postTrimTokens g = Some (post_trim_tokens r)
        \<and> reductionPercent g = Some (reduction_pct r)"
    using r by (auto simp: load_session_def Let_def subscript_def split: sum.splits option.splits)
  with Cons.IH[OF rs'] e show ?case by simp
qed

lemma analyze_session_None_iff:
  "analyze_session f = Inr None \<longleftrightarrow>
     getsize f = None
     \<or> (\<exists>sz. getsize f = Some sz \<and> sz < 100)
     \<or> opened f = None
     \<or> (\<exists>ls e. opened f = Some ls \<and> process_lines ls initial = Inl e)
     \<or> (\<exists>ls s. opened f = Some ls \<and> process_lines ls initial = Inr s
                \<and> msg_user s + msg_assistant s < 10)"
proof -
  have sm: "\<And>s. summarize (stem f) (parent_name f) s = Inr None
               \<longleftrightarrow> msg_user s + msg_assistant s < 10"
    by (auto simp: summarize_def Let_def split: sum.splits)
  show ?thesis
  proof (cases "getsize f")
    case None
    then show ?thesis by (simp add: analyze_session_def)
  next
    case (Some sz)
    show ?thesis
    proof (cases "sz < 100")
      case True
      with Some show ?thesis by (simp add: analyze_session_def)
    next
      case big: False
      show ?thesis
      proof (cases "opened f")
        case None
        with Some big show ?thesis by (simp add: analyze_session_def)
      next
        case ls: (Some ls)
        show ?thesis
        proof (cases "process_lines ls initial")
          case (Inl e)
          with Some big ls show ?thesis by (simp add: analyze_session_def)
        next
          case (Inr s)
          with Some big ls show ?thesis by (simp add: analyze_session_def sm)
        qed
      qed
    qed
  qed
qed

section \<open>Compaction boundaries\<close>

text \<open>
  The reset block. A compaction boundary whose summary is text \<open>t\<close> (or that has no
  summary) is processed without a fault. The block assigns the total counter the byte
  length of the boundary's line and zero to every other byte counter, to the block and
  turn counters, to the character counter and to the character count captured at the last
  API observation; with a non-empty summary the character counter then receives the
  length of the text and the conversation counter the byte length of the line. The block
  has no assignment to \<^verbatim>\<open>last_api_input_tokens\<close>.
\<close>

lemma compaction_resets:
  assumes "\<not> blank (rstrip_nl (raw l))"
    and "json_loads l = Some (JObj p)"
    and "is_compaction p"
    and "compaction_summary p = JStr t \<or> \<not> truthy (compaction_summary p)"
  shows "\<exists>s'. process_line l s = Inr s' \<and>
           total_bytes s' = line_bytes_of l \<and>
           tool_result_bytes s' = 0 \<and> tool_result_count s' = 0 \<and>
           thinking_bytes s' = 0 \<and> thinking_count s' = 0 \<and>
           file_history_bytes s' = 0 \<and> file_history_count s' = 0 \<and>
           tool_use_bytes s' = 0 \<and> tool_use_count s' = 0 \<and>
           other_bytes s' = 0 \<and> msg_user s' = 0 \<and> msg_assistant s' = 0 \<and>
           content_chars_at_last_api s' = 0 \<and>
           content_chars s' = (if truthy (compaction_summary p) then length t else 0) \<and>
           conversation_bytes s' = (if truthy (compaction_summary p) then line_bytes_of l else 0) \<and>
           last_api_input_tokens s' = last_api_input_tokens s"
proof (cases "truthy (compaction_summary p)")
  case True
  with assms(4) have "compaction_summary p = JStr t" by blast
  then show ?thesis
    using True by (simp add: process_line_compaction[OF assms(1-3)] compaction_unfold)
next
  case False
  then show ?thesis
    by (simp add: process_line_compaction[OF assms(1-3)] compaction_unfold)
qed

text \<open>
  Claim C4. The claim has a compaction boundary reset every running and auxiliary
  counter, the last-seen API-reported input-token total among them. The code departs from
  it at that counter. After an assistant record that reports 50000 input tokens and a
  summary record, the loop still holds the total 50000, while the character count
  captured with it has been set to zero. The stale total then anchors the token estimate:
  the log made of that assistant record, the summary record and ten user turns is
  estimated at 50013 tokens (50000 plus a quarter of the 53 characters counted since the
  boundary), and the log that starts at the summary record, the same live context, at
  20013 (a quarter of the 53 characters plus the system overhead).
\<close>

theorem compaction_keeps_api_total:
  "map_sum id last_api_input_tokens
     (process_lines [assistant_line ''50000'' 50000, summary_line] initial) = Inr (Some 50000) \<and>
   map_sum id content_chars_at_last_api
     (process_lines [assistant_line ''50000'' 50000, summary_line] initial) = Inr 0 \<and>
   map_sum id (map_option estimated_tokens) (analyze_session stale_session) = Inr (Some 50013) \<and>
   map_sum id (map_option estimated_tokens) (analyze_session tail_session) = Inr (Some 20013)"
proof -
  have a: "map_sum id last_api_input_tokens
     (process_lines [assistant_line ''50000'' 50000, summary_line] initial) = Inr (Some 50000)"
    by code_simp
  have b: "map_sum id content_chars_at_last_api
     (process_lines [assistant_line ''50000'' 50000, summary_line] initial) = Inr 0"
    by code_simp
  have c: "map_sum id (map_option estimated_tokens) (analyze_session stale_session)
      = Inr (Some 50013)"
    by code_simp
  have d: "map_sum id (map_option estimated_tokens) (analyze_session tail_session)
      = Inr (Some 20013)"
    by code_simp
  from a b c d show ?thesis by blast
qed

text \<open>
  Claim C5. Take a log with records A, B, then a compaction boundary, then records C, D.
  When the loop processes A and B without a fault, the seven byte counters after the
  whole log are those after the log that starts at the boundary (and a record after the
  boundary that faults, faults in both; the counters are compared through
  \<open>map_sum id byte_counters\<close>, which keeps the error of a faulting run). When
  \<^verbatim>\<open>analyze_session\<close> returns a record for the whole log and one for the log that starts at
  the boundary, the seven byte fields of the two records are equal.
\<close>

theorem compaction_discards_prefix:
  assumes "\<not> blank (rstrip_nl (raw boundary))"
    and "json_loads boundary = Some (JObj p)"
    and "is_compaction p"
  shows "(process_lines before initial = Inr s0 \<longrightarrow>
            map_sum id byte_counters (process_lines (before @ boundary # after) initial)
            = map_sum id byte_counters (process_lines (boundary # after) initial))
       \<and> (opened f = Some (before @ boundary # after) \<and> opened g = Some (boundary # after) \<and>
          analyze_session f = Inr (Some r) \<and> analyze_session g = Inr (Some r') \<longrightarrow>
            record_byte_counters r = record_byte_counters r')"
proof -
  have loop: "map_sum id byte_counters (process_lines (before @ boundary # after) initial)
            = map_sum id byte_counters (process_lines (boundary # after) initial)"
    if run: "process_lines before initial = Inr s1" for s1
  proof -
    have b: "map_sum id byte_counters (process_line boundary s1)
           = map_sum id byte_counters (process_line boundary initial)"
      using assms by (simp add: process_line_compaction compaction_byte_counters)
    have "map_sum id byte_counters (process_lines (boundary # after) s1)
        = map_sum id byte_counters (process_lines (boundary # after) initial)"
    proof (cases "process_line boundary s1")
      case (Inl e)
      with b show ?thesis by (cases "process_line boundary initial") simp_all
    next
      case s2: (Inr s2)
      with b obtain t2 where t2: "process_line boundary initial = Inr t2"
        and eq: "byte_counters s2 = byte_counters t2"
        by (cases "process_line boundary initial") simp_all
      from process_lines_byte_counters[OF eq, of after] s2 t2 show ?thesis by simp
    qed
    then show ?thesis using run by (simp add: process_lines_append)
  qed
  have rec: "record_byte_counters r = record_byte_counters r'"
    if f: "opened f = Some (before @ boundary # after)"
      and g: "opened g = Some (boundary # after)"
      and rf: "analyze_session f = Inr (Some r)"
      and rg: "analyze_session g = Inr (Some r')"
  proof -
    from analyze_session_Some[OF rf] f obtain s where
      s: "process_lines (before @ boundary # after) initial = Inr s"
      and sm: "summarize (stem f) (parent_name f) s = Inr (Some r)"
      by auto
    from analyze_session_Some[OF rg] g obtain t where
      t: "process_lines (boundary # after) initial = Inr t"
      and tm: "summarize (stem g) (parent_name g) t = Inr (Some r')"
      by auto
    from s obtain s1 where s1: "process_lines before initial = Inr s1"
      by (cases "process_lines before initial") (simp_all add: process_lines_append)
    from loop[OF s1] s t have "byte_counters s = byte_counters t" by simp
    then show ?thesis
      unfolding summarize_record_byte_counters[OF sm] summarize_record_byte_counters[OF tm]
      by (simp add: byte_counters_def)
  qed
  from loop rec show ?thesis by blast
qed

theorem compaction_discards_prefix_witness:
  "\<not> blank (rstrip_nl (raw summary_line)) \<and>
   json_loads summary_line = Some (JObj [(''type'', JStr ''summary''), (''summary'', JStr ''abc'')]) \<and>
   is_compaction [(''type'', JStr ''summary''), (''summary'', JStr ''abc'')] \<and>
   \<not> isl (process_lines [user_line, tool_result_line] initial) \<and>
   map_sum id byte_counters
     (process_lines ([user_line, tool_result_line] @ summary_line # replicate 10 user_line) initial)
   = map_sum id byte_counters (process_lines (summary_line # replicate 10 user_line) initial) \<and>
   (\<exists>r r'. analyze_session compacted_session = Inr (Some r) \<and>
        analyze_session tail_session = Inr (Some r') \<and>
        record_byte_counters r = record_byte_counters r')"
proof -
  let ?p = "[(''type'', JStr ''summary''), (''summary'', JStr ''abc'')]"
  have h1: "\<not> blank (rstrip_nl (raw summary_line))"
    by code_simp
  have h2: "json_loads summary_line = Some (JObj ?p)"
    by (simp add: summary_line_def)
  have h3: "is_compaction ?p"
    by code_simp
  have h4: "\<not> isl (process_lines [user_line, tool_result_line] initial)"
    by code_simp
  then obtain s0 where s0: "process_lines [user_line, tool_result_line] initial = Inr s0"
    by (cases "process_lines [user_line, tool_result_line] initial") simp_all
  have "(case analyze_session compacted_session of Inr (Some r) \<Rightarrow> True | _ \<Rightarrow> False)"
    by code_simp
  then obtain r where r: "analyze_session compacted_session = Inr (Some r)"
    by (auto split: sum.splits option.splits)
  have "(case analyze_session tail_session of Inr (Some r) \<Rightarrow> True | _ \<Rightarrow> False)"
    by code_simp
  then obtain r' where r': "analyze_session tail_session = Inr (Some r')"
    by (auto split: sum.splits option.splits)
  have f: "opened compacted_session
             = Some ([user_line, tool_result_line] @ summary_line # replicate 10 user_line)"
    by (simp add: compacted_session_def)
  have g: "opened tail_session = Some (summary_line # replicate 10 user_line)"
    by (simp add: tail_session_def)
  note c = compaction_discards_prefix[OF h1 h2 h3,
      of "[user_line, tool_result_line]" s0 "replicate 10 user_line"
         compacted_session tail_session r r']
  from c s0 have a: "map_sum id byte_counters
     (process_lines ([user_line, tool_result_line] @ summary_line # replicate 10 user_line) initial)
   = map_sum id byte_counters (process_lines (summary_line # replicate 10 user_line) initial)"
    by blast
  from c f g r r' have b: "record_byte_counters r = record_byte_counters r'"
    by blast
  from h1 h2 h3 h4 a b r r' show ?thesis by blast
qed

section \<open>Byte accounting\<close>

text \<open>
  Claim C6, as stated, fails. \<^verbatim>\<open>json.dumps\<close> writes a block with a space after each
  separator and escapes every non-ASCII character, so a block can be longer than the line
  it was read from; the remainder of such a line is cut at zero and the categories add up
  to more than the line. Ten user turns of 79 bytes whose \<^verbatim>\<open>tool_result\<close> block is dumped
  to 86 bytes give a record with 790 total bytes and 860 bytes in the six categories.
\<close>

theorem category_sum_exceeds_total_counterexample:
  "map_sum id (map_option (\<lambda>r. (SessionData.total_bytes r,
       SessionData.tool_result_bytes r + SessionData.thinking_bytes r
       + SessionData.file_history_bytes r + SessionData.conversation_bytes r
       + SessionData.tool_use_bytes r + SessionData.other_bytes r)))
     (analyze_session tool_result_session) = Inr (Some (790, 860))"
  by code_simp

text \<open>
  Claim C6, amended. If in every line of the log the bytes accounted to \<^verbatim>\<open>tool_result\<close>,
  signature and \<^verbatim>\<open>tool_use\<close> blocks do not exceed the byte length of the line, then the
  total counter is at least the sum of the six category counters after every prefix of
  the log that the loop processes, and in the record that \<^verbatim>\<open>analyze_session\<close> returns.
\<close>

theorem total_bytes_covers_categories:
  assumes "\<forall>l\<in>set ls. accounted_of l \<le> line_bytes_of l"
  shows "(\<forall>k s. process_lines (take k ls) initial = Inr s \<longrightarrow> category_sum s \<le> total_bytes s)
       \<and> (\<forall>f r. opened f = Some ls \<and> analyze_session f = Inr (Some r) \<longrightarrow>
             SessionData.tool_result_bytes r + SessionData.thinking_bytes r
             + SessionData.file_history_bytes r + SessionData.conversation_bytes r
             + SessionData.tool_use_bytes r + SessionData.other_bytes r
             \<le> SessionData.total_bytes r)"
proof (intro conjI allI impI)
  fix k s
  assume run: "process_lines (take k ls) initial = Inr s"
  have "\<forall>l\<in>set (take k ls). accounted_of l \<le> line_bytes_of l"
    using assms by (meson in_set_takeD)
  from process_lines_category_sum[OF this category_sum_initial run]
  show "category_sum s \<le> total_bytes s" .
next
  fix f r
  assume a: "opened f = Some ls \<and> analyze_session f = Inr (Some r)"
  from analyze_session_Some[of f r] a obtain s where
    run: "process_lines ls initial = Inr s"
    and sm: "summarize (stem f) (parent_name f) s = Inr (Some r)"
    by auto
  from process_lines_category_sum[OF assms category_sum_initial run]
  have "category_sum s \<le> total_bytes s" .
  moreover from summarize_Some[OF sm] have
    "SessionData.tool_result_bytes r = int (tool_result_bytes s)"
    "SessionData.thinking_bytes r = int (thinking_bytes s)"
    "SessionData.file_history_bytes r = int (file_history_bytes s)"
    "SessionData.conversation_bytes r = int (conversation_bytes s)"
    "SessionData.tool_use_bytes r = int (tool_use_bytes s)"
    "SessionData.other_bytes r = int (other_bytes s)"
    "SessionData.total_bytes r = int (total_bytes s)"
    by auto
  ultimately show "SessionData.tool_result_bytes r + SessionData.thinking_bytes r
             + SessionData.file_history_bytes r + SessionData.conversation_bytes r
             + SessionData.tool_use_bytes r + SessionData.other_bytes r
             \<le> SessionData.total_bytes r"
    by (simp add: category_sum_def)
qed

theorem total_bytes_covers_categories_witness:
  "list_all (\<lambda>l. accounted_of l \<le> line_bytes_of l) (replicate 10 user_line) \<and>
   (\<exists>s. process_lines (take 4 (replicate 10 user_line)) initial = Inr s \<and>
        category_sum s \<le> total_bytes s) \<and>
   (\<exists>r. analyze_session plain_session = Inr (Some r) \<and>
        SessionData.tool_result_bytes r + SessionData.thinking_bytes r
        + SessionData.file_history_bytes r + SessionData.conversation_bytes r
        + SessionData.tool_use_bytes r + SessionData.other_bytes r
        \<le> SessionData.total_bytes r)"
proof -
  have h0: "list_all (\<lambda>l. accounted_of l \<le> line_bytes_of l) (replicate 10 user_line)"
    by code_simp
  then have h: "\<forall>l\<in>set (replicate 10 user_line). accounted_of l \<le> line_bytes_of l"
    by (simp only: list_all_iff)
  note covers = total_bytes_covers_categories[OF h]
  have "\<not> isl (process_lines (take 4 (replicate 10 user_line)) initial)"
    by code_simp
  then obtain s where s: "process_lines (take 4 (replicate 10 user_line)) initial = Inr s"
    by (cases "process_lines (take 4 (replicate 10 user_line)) initial") simp_all
  have a: "category_sum s \<le> total_bytes s"
    using covers s by blast
  have o: "opened plain_session = Some (replicate 10 user_line)"
    by (simp add: plain_session_def)
  have "(case analyze_session plain_session of Inr (Some r) \<Rightarrow> True | _ \<Rightarrow> False)"
    by code_simp
  then obtain r where r: "analyze_session plain_session = Inr (Some r)"
    by (auto split: sum.splits option.splits)
  have b: "SessionData.tool_result_bytes r + SessionData.thinking_bytes r
        + SessionData.file_history_bytes r + SessionData.conversation_bytes r
        + SessionData.tool_use_bytes r + SessionData.other_bytes r
        \<le> SessionData.total_bytes r"
    using covers o r by blast
  show ?thesis using h0 s a r b by blast
qed

section \<open>Bounds on the records\<close>

text \<open>
  Claim C3, as stated, fails for the ground-truth adapter, which copies the three fields
  from the file without a check: an entry with 1000 estimated tokens, 2000 post-trim
  tokens and a reduction of 150 percent becomes a record with these values.
\<close>

theorem adapter_breaks_bounds_counterexample:
  "map_sum id (map (\<lambda>r. (estimated_tokens r, post_trim_tokens r, reduction_pct r)))
     (load_from_json [inflated_entry] PRICING_sonnet 0.9) = Inr [(1000, 2000, 150)]"
  by code_simp

text \<open>
  Claim C3, amended. Every record that \<^verbatim>\<open>analyze_session\<close> returns satisfies
  \<open>0 \<le> post_trim_tokens \<le> estimated_tokens\<close> and \<open>0 \<le> reduction_pct \<le> 100\<close>. The records
  that \<^verbatim>\<open>load_from_json\<close> returns carry, entry by entry, the estimated tokens, the
  post-trim tokens and the reduction percent of the file unchanged, so that they satisfy
  the bounds exactly when the entries of the file do.
\<close>

theorem session_record_bounds:
  "(analyze_session f = Inr (Some r) \<longrightarrow>
      0 \<le> post_trim_tokens r \<and> post_trim_tokens r \<le> estimated_tokens r \<and>
      0 \<le> reduction_pct r \<and> reduction_pct r \<le> 100)
   \<and> (load_from_json gs pr h = Inr rs \<longrightarrow>
      list_all2 (\<lambda>g r. estimatedTokens g = Some (estimated_tokens r)
                        \<and> postTrimTokens g = Some (post_trim_tokens r)
                        \<and> reductionPercent g = Some (reduction_pct r)) gs rs)"
proof (rule conjI; rule impI)
  assume "analyze_session f = Inr (Some r)"
  from analyze_session_tokens[OF this] obtain s post0 where
    a: "anchored s"
    and est: "estimated_tokens r = estimate_tokens s"
    and p0: "estimate_post_trim s (estimate_tokens s) = Inr post0"
    and post: "post_trim_tokens r = min post0 (estimate_tokens s)"
    and red: "reduction_of (estimate_tokens s) (min post0 (estimate_tokens s)) = Inr (reduction_pct r)"
    by blast
  have e0: "0 \<le> estimate_tokens s" using estimate_tokens_nonneg[OF a] .
  have "0 \<le> post0"
    using estimate_post_trim_cases[OF p0] e0 by (auto simp: SYSTEM_OVERHEAD_def)
  then have lo: "0 \<le> min post0 (estimate_tokens s)" using e0 by simp
  have hi: "min post0 (estimate_tokens s) \<le> estimate_tokens s" by simp
  from reduction_of_bounds[OF red lo hi] lo hi
  show "0 \<le> post_trim_tokens r \<and> post_trim_tokens r \<le> estimated_tokens r \<and>
      0 \<le> reduction_pct r \<and> reduction_pct r \<le> 100"
    by (simp add: est post)
next
  assume "load_from_json gs pr h = Inr rs"
  then show "list_all2 (\<lambda>g r. estimatedTokens g = Some (estimated_tokens r)
                        \<and> postTrimTokens g = Some (post_trim_tokens r)
                        \<and> reductionPercent g = Some (reduction_pct r)) gs rs"
    by (rule load_from_json_fields)
qed

theorem session_record_bounds_witness:
  "(\<exists>r. analyze_session plain_session = Inr (Some r) \<and>
        0 \<le> post_trim_tokens r \<and> post_trim_tokens r \<le> estimated_tokens r \<and>
        0 \<le> reduction_pct r \<and> reduction_pct r \<le> 100) \<and>
   (\<exists>rs. load_from_json [sonnet_entry] PRICING_opus 0.9 = Inr rs \<and>
        list_all2 (\<lambda>g r. estimatedTokens g = Some (estimated_tokens r)
                        \<and> postTrimTokens g = Some (post_trim_tokens r)
                        \<and> reductionPercent g = Some (reduction_pct r)) [sonnet_entry] rs)"
proof -
  have "(case analyze_session plain_session of Inr (Some r) \<Rightarrow> True | _ \<Rightarrow> False)"
    by code_simp
  then obtain r where r: "analyze_session plain_session = Inr (Some r)"
    by (auto split: sum.splits option.splits)
  have "\<not> isl (load_from_json [sonnet_entry] PRICING_opus 0.9)"
    by code_simp
  then obtain rs where rs: "load_from_json [sonnet_entry] PRICING_opus 0.9 = Inr rs"
    by (cases "load_from_json [sonnet_entry] PRICING_opus 0.9") simp_all
  from session_record_bounds[of plain_session r "[sonnet_entry]" PRICING_opus "0.9" rs] r rs
  show ?thesis by blast
qed

text \<open>
  Claim C10. In every record that \<^verbatim>\<open>analyze_session\<close> returns (with or without bytes in
  the log) the post-trim estimate is at least the smaller of the estimated tokens and the
  system overhead of 20000; and when the estimated tokens are at most 20000, the post-trim
  estimate equals them and the reduction is 0, whatever the byte counters are.
\<close>

theorem post_trim_floor:
  assumes "analyze_session f = Inr (Some r)"
  shows "min (estimated_tokens r) 20000 \<le> post_trim_tokens r \<and>
         (estimated_tokens r \<le> 20000 \<longrightarrow>
            post_trim_tokens r = estimated_tokens r \<and> reduction_pct r = 0)"
proof -
  from analyze_session_tokens[OF assms] obtain s post0 where
    est: "estimated_tokens r = estimate_tokens s"
    and p0: "estimate_post_trim s (estimate_tokens s) = Inr post0"
    and post: "post_trim_tokens r = min post0 (estimate_tokens s)"
    and red: "reduction_of (estimate_tokens s) (min post0 (estimate_tokens s)) = Inr (reduction_pct r)"
    by blast
  define e where "e = estimate_tokens s"
  from estimate_post_trim_cases[OF p0]
  have c: "post0 = e \<or> (\<exists>k. 0 \<le> k \<and> post0 = k + 20000 \<and> (e \<le> 20000 \<longrightarrow> k = 0))"
    by (simp add: e_def SYSTEM_OVERHEAD_def)
  have lo: "min e 20000 \<le> min post0 e"
    using c by auto
  have "e \<le> 20000 \<longrightarrow> min post0 e = e \<and> reduction_pct r = 0"
  proof
    assume le: "e \<le> 20000"
    with c have m: "min post0 e = e" by auto
    with red have "reduction_of e e = Inr (reduction_pct r)" by (simp add: e_def)
    then have "reduction_pct r = 0" by (simp add: reduction_of_zero)
    with m show "min post0 e = e \<and> reduction_pct r = 0" by simp
  qed
  with lo show ?thesis by (simp add: est post e_def)
qed

theorem post_trim_floor_witness:
  "\<exists>r. analyze_session small_session = Inr (Some r) \<and>
       estimated_tokens r = 153 \<and>
       min (estimated_tokens r) 20000 \<le> post_trim_tokens r \<and>
       post_trim_tokens r = estimated_tokens r \<and> reduction_pct r = 0"
proof -
  have e: "map_sum id (map_option estimated_tokens) (analyze_session small_session)
             = Inr (Some 153)"
    by code_simp
  then obtain r where r: "analyze_session small_session = Inr (Some r)"
    and est: "estimated_tokens r = 153"
    by (cases "analyze_session small_session") auto
  from post_trim_floor[OF r] est r show ?thesis by simp
qed

section \<open>Faults and the batch\<close>

text \<open>
  Claim C8. By \<open>analyze_session_None_iff\<close> the analyzer returns \<^verbatim>\<open>None\<close> exactly when the
  size cannot be read or is below 100, the file cannot be opened, the loop over the lines
  faults, or fewer than ten user and assistant records were counted. The arithmetic after
  the loop is outside the \<^verbatim>\<open>try\<close> block, and here the code departs from the claim: a
  session whose last API checkpoint is beyond the range of a double makes
  \<^verbatim>\<open>content_tok * (1 - ratio)\<close> raise \<^verbatim>\<open>OverflowError\<close>. The exception leaves
  \<^verbatim>\<open>analyze_session\<close> and the loop of \<^verbatim>\<open>main\<close>, so the session that follows in the batch,
  which alone yields a record, yields none.
\<close>

theorem analyze_session_raises:
  "analyze_session overflow_session = Inl OverflowError \<and>
   analyze_all [overflow_session, plain_session] PRICING_sonnet 0.9 5000 = Inl OverflowError \<and>
   map_sum id (map session_id) (analyze_all [plain_session] PRICING_sonnet 0.9 5000)
     = Inr [''plain'']"
proof -
  have a: "analyze_session overflow_session = Inl OverflowError"
    by code_simp
  have b: "analyze_all [overflow_session, plain_session] PRICING_sonnet 0.9 5000
             = Inl OverflowError"
    by (simp add: a)
  have c: "map_sum id (map session_id) (analyze_all [plain_session] PRICING_sonnet 0.9 5000)
             = Inr [''plain'']"
    by code_simp
  from a b c show ?thesis by simp
qed

section \<open>Cost fields of the ground-truth adapter\<close>

text \<open>
  Claim C9. The adapter recomputes \<open>breakeven_turns\<close> under the requested pricing and hit
  rate, and here the code departs from the claim: \<open>cache_miss_penalty\<close> and
  \<open>savings_per_turn\<close> are read from the file. An entry written under the Sonnet prices
  (penalty 0.0105, savings 0.0516) and loaded under the Opus prices keeps both values,
  where the standalone path of \<^verbatim>\<open>main\<close> computes 0.0175 and 0.086 for the same token
  counts.
\<close>

theorem adapter_keeps_file_costs:
  "map_sum id (map (\<lambda>r. (breakeven_turns r, cache_miss_penalty r, savings_per_turn r)))
     (load_from_json [sonnet_entry] PRICING_opus 0.9) = Inr [(2, 0.0105, 0.0516)] \<and>
   (case load_session sonnet_entry PRICING_opus 0.9 of
      Inl e \<Rightarrow> Inl e
    | Inr r \<Rightarrow>
        map_sum id (\<lambda>r'. (breakeven_turns r', cache_miss_penalty r', savings_per_turn r'))
          (fill_costs r PRICING_opus 0.9)) = Inr (2, 0.0175, 0.086)"
  by code_simp

end
